theory Spec2Isabelle
  imports Main "HOL-Library.Sublist"
begin

section \<open>Python strings and exceptions\<close>

text \<open>
  The script \<^verbatim>\<open>psych_git.py\<close> is modelled as a shallow embedding. A Python \<^verbatim>\<open>str\<close> is a
  \<^typ>\<open>string\<close>, one \<^typ>\<open>char\<close> per code point, which covers the code points 0 to 255.
  Exceptions are values: a function that can raise returns \<open>exn + 'a\<close>, with \<open>Inl\<close> for
  the exception. \<^verbatim>\<open>exit(msg)\<close> raises \<^verbatim>\<open>SystemExit\<close> (its message is left out), which is
  the one exception here that \<^verbatim>\<open>except Exception\<close> does not catch. \<open>OtherException\<close>
  carries the name of an exception raised by one of the external services.
\<close>

datatype exn = IndexError | ValueError | SystemExit | OtherException string

fun is_Exception :: "exn \<Rightarrow> bool" where
  "is_Exception SystemExit = False"
| "is_Exception _ = True"

definition and_then :: "exn + 'a \<Rightarrow> ('a \<Rightarrow> exn + 'b) \<Rightarrow> exn + 'b" where
  "and_then r f = (case r of Inl e \<Rightarrow> Inl e | Inr x \<Rightarrow> f x)"

text \<open>
  \<^verbatim>\<open>str.isspace\<close> on one character. Below code point 256 the white space characters of
  Python are tab, line feed, vertical tab, form feed, carriage return, the four
  separators 28 to 31, space, next line (133) and no-break space (160).
\<close>

definition isspace :: "char \<Rightarrow> bool" where
  "isspace c = (of_char c \<in> {9, 10, 11, 12, 13, 28, 29, 30, 31, 32, 133, 160 :: nat})"

text \<open>\<^verbatim>\<open>s.strip()\<close>: leading and trailing white space removed.\<close>

definition strip :: "string \<Rightarrow> string" where
  "strip s = rev (dropWhile isspace (rev (dropWhile isspace s)))"

text \<open>
  \<^verbatim>\<open>s.find(sub)\<close>: the lowest index at which \<open>sub\<close> occurs in \<open>s\<close>, \<open>None\<close> standing
  for Python's \<open>-1\<close>.
\<close>

fun find_str :: "string \<Rightarrow> string \<Rightarrow> nat option" where
  "find_str sub [] = (if sub = [] then Some 0 else None)"
| "find_str sub (c # cs) =
     (if prefix sub (c # cs) then Some 0 else map_option Suc (find_str sub cs))"

lemma find_str_bound: "find_str sub s = Some i \<Longrightarrow> i + length sub \<le> length s"
proof (induction s arbitrary: i)
  case Nil
  then show ?case by (simp split: if_splits)
next
  case (Cons c cs)
  show ?case
  proof (cases "prefix sub (c # cs)")
    case True
    with Cons.prems show ?thesis by (auto dest: prefix_length_le)
  next
    case False
    with Cons.prems obtain j where "find_str sub cs = Some j" "i = Suc j" by auto
    with Cons.IH show ?thesis by fastforce
  qed
qed

text \<open>
  \<^verbatim>\<open>s.split(sep)\<close>: the pieces between the occurrences of \<open>sep\<close>, found from the left,
  each search starting behind the separator found before. An empty separator raises
  \<^verbatim>\<open>ValueError\<close>.
\<close>

function split_at :: "string \<Rightarrow> string \<Rightarrow> string list" where
  "split_at sep s =
     (case find_str sep s of
        None \<Rightarrow> [s]
      | Some i \<Rightarrow> if sep = [] then [s] else take i s # split_at sep (drop (i + length sep) s))"
  by pat_completeness auto
termination
proof (relation "measure (\<lambda>(sep, s). length s)")
  show "wf (measure (\<lambda>(sep, s). length s))" by simp
next
  fix sep s :: string and i
  assume "find_str sep s = Some i" "sep \<noteq> []"
  then have "i + length sep \<le> length s"
    by (simp add: find_str_bound)
  with \<open>sep \<noteq> []\<close>
  show "((sep, drop (i + length sep) s), (sep, s)) \<in> measure (\<lambda>(sep, s). length s)"
    by (cases sep) auto
qed

declare split_at.simps [simp del]

definition split :: "string \<Rightarrow> string \<Rightarrow> exn + string list" where
  "split s sep = (if sep = [] then Inl ValueError else Inr (split_at sep s))"

text \<open>
  \<^verbatim>\<open>s.replace(old, new)\<close>: every occurrence of \<open>old\<close>, found from the left without
  overlap, replaced by \<open>new\<close>. With an empty \<open>old\<close>, \<open>new\<close> is put before every
  character and at the end.
\<close>

function replace_at :: "string \<Rightarrow> string \<Rightarrow> string \<Rightarrow> string" where
  "replace_at old new s =
     (case find_str old s of
        None \<Rightarrow> s
      | Some i \<Rightarrow> if old = [] then s
                  else take i s @ new @ replace_at old new (drop (i + length old) s))"
  by pat_completeness auto
termination
proof (relation "measure (\<lambda>(old, new, s). length s)")
  show "wf (measure (\<lambda>(old, new, s). length s))" by simp
next
  fix old new s :: string and i
  assume "find_str old s = Some i" "old \<noteq> []"
  then have "i + length old \<le> length s"
    by (simp add: find_str_bound)
  with \<open>old \<noteq> []\<close>
  show "((old, new, drop (i + length old) s), (old, new, s))
      \<in> measure (\<lambda>(old, new, s). length s)"
    by (cases old) auto
qed

declare replace_at.simps [simp del]

definition replace :: "string \<Rightarrow> string \<Rightarrow> string \<Rightarrow> string" where
  "replace s old new =
     (if old = [] then new @ concat (map (\<lambda>c. c # new) s) else replace_at old new s)"

text \<open>\<^verbatim>\<open>xs[i]\<close> for an index \<open>i \<ge> 0\<close>: \<^verbatim>\<open>IndexError\<close> beyond the end.\<close>

definition index :: "'a list \<Rightarrow> nat \<Rightarrow> exn + 'a" where
  "index xs i = (if i < length xs then Inr (xs ! i) else Inl IndexError)"

text \<open>\<^verbatim>\<open>sep.join(xs)\<close>.\<close>

fun join :: "string \<Rightarrow> string list \<Rightarrow> string" where
  "join sep [] = []"
| "join sep [x] = x"
| "join sep (x # y # ys) = x @ sep @ join sep (y # ys)"

text \<open>The positions at which \<open>sub\<close> occurs in \<open>s\<close>, lowest first.\<close>

definition occurrences :: "string \<Rightarrow> string \<Rightarrow> nat list" where
  "occurrences sub s = filter (\<lambda>i. prefix sub (drop i s)) [0..<Suc (length s)]"

section \<open>Integers as text\<close>

definition isdigit :: "char \<Rightarrow> bool" where
  "isdigit c = (48 \<le> (of_char c :: nat) \<and> (of_char c :: nat) \<le> 57)"

definition digit_val :: "char \<Rightarrow> int" where
  "digit_val c = int (of_char c) - 48"

text \<open>
  The digits of \<^verbatim>\<open>int(s)\<close> in base ten: at least one digit, and a single underscore
  allowed between two digits.
\<close>

fun parse_digits :: "int \<Rightarrow> string \<Rightarrow> int option" where
  "parse_digits acc [] = Some acc"
| "parse_digits acc (c # cs) =
     (if isdigit c then parse_digits (10 * acc + digit_val c) cs
      else if c = CHR ''_'' then
        (case cs of
           [] \<Rightarrow> None
         | d # ds \<Rightarrow> if isdigit d then parse_digits (10 * acc + digit_val d) ds else None)
      else None)"

definition parse_unsigned :: "string \<Rightarrow> int option" where
  "parse_unsigned s =
     (case s of
        [] \<Rightarrow> None
      | c # cs \<Rightarrow> if isdigit c then parse_digits (digit_val c) cs else None)"

text \<open>
  The white space that \<^verbatim>\<open>int(s)\<close> skips around a number. It is not the white space of
  \<^verbatim>\<open>str.strip\<close>: below code point 128 the conversion skips tab, line feed, vertical tab,
  form feed, carriage return and space only, so that the separators 28 to 31 make the
  text invalid; next line (133) and no-break space (160) are turned into spaces first
  and so are skipped.
\<close>

definition int_space :: "char \<Rightarrow> bool" where
  "int_space c = (of_char c \<in> {9, 10, 11, 12, 13, 32, 133, 160 :: nat})"

text \<open>
  The integer that a text denotes for \<^verbatim>\<open>int(s)\<close>: white space around the number is
  skipped, one sign may precede the digits. \<open>None\<close> when the text is not of this form.
\<close>

definition py_int :: "string \<Rightarrow> int option" where
  "py_int s =
     (case rev (dropWhile int_space (rev (dropWhile int_space s))) of
        [] \<Rightarrow> None
      | c # cs \<Rightarrow>
          if c = CHR ''-'' then map_option uminus (parse_unsigned cs)
          else if c = CHR ''+'' then parse_unsigned cs
          else parse_unsigned (c # cs))"

text \<open>
  \<^verbatim>\<open>int(s)\<close> as the interpreter runs it, \<open>None\<close> being \<^verbatim>\<open>ValueError\<close>: since version 3.11 a
  text with more digits than \<^verbatim>\<open>sys.get_int_max_str_digits()\<close> is refused, whatever it
  denotes. The script leaves the limit at its default. The digits counted are the digit
  characters of the text, leading zeros included, underscores and white space not.
\<close>

definition int_max_str_digits :: nat where
  "int_max_str_digits = 4300"

definition int_of_str :: "string \<Rightarrow> int option" where
  "int_of_str s =
     (if int_max_str_digits < length (filter isdigit s) then None else py_int s)"

text \<open>
  \<^verbatim>\<open>str(n)\<close> for an integer: its decimal digits, with a minus sign when negative. The
  script applies it to an index of a list only, a number of far fewer digits than the
  limit above, which \<^verbatim>\<open>str\<close> has too.
\<close>

fun str_nat :: "nat \<Rightarrow> string" where
  "str_nat n =
     (if n < 10 then [char_of (48 + n)] else str_nat (n div 10) @ [char_of (48 + n mod 10)])"

declare str_nat.simps [simp del]

definition py_str :: "int \<Rightarrow> string" where
  "py_str i = (if i < 0 then CHR ''-'' # str_nat (nat (- i)) else str_nat (nat i))"

section \<open>The sequential selector\<close>

text \<open>
  Lines 174 to 179 of \<^verbatim>\<open>generate_video_with_music\<close>: the index stored by the last run.
  The state file \<^verbatim>\<open>psych_temp/last_video_index.txt\<close> is \<open>None\<close> when it does not exist
  and \<open>Some\<close> of its text otherwise.
\<close>

definition read_last_index :: "string option \<Rightarrow> int" where
  "read_last_index state_file =
     (case state_file of
        None \<Rightarrow> - 1
      | Some content \<Rightarrow> (case int_of_str content of Some n \<Rightarrow> n | None \<Rightarrow> - 1))"

text \<open>
  Lines 171 to 186: the selection among the background videos, \<open>available_videos\<close>
  being the sorted list of line 169. The result is the index chosen, the file name at
  that index and the new content of the state file. With no video the script leaves
  through \<^verbatim>\<open>exit\<close>, whose \<^verbatim>\<open>SystemExit\<close> the \<^verbatim>\<open>except Exception\<close> of line 189 lets pass.
  Opening, reading and writing the state file are taken to succeed.
\<close>

definition select_video :: "string list \<Rightarrow> string option \<Rightarrow> exn + (int \<times> string \<times> string option)" where
  "select_video available_videos state_file =
     (if available_videos = [] then
        Inl SystemExit
      else
        let last_index = read_last_index state_file;
            next_index = (last_index + 1) mod int (length available_videos)
        in Inr (next_index, available_videos ! nat next_index, Some (py_str next_index)))"

text \<open>
  Successive runs of the selector on the same videos, each run reading the state file
  the run before has written: the indices chosen, in order, and the last state file.
\<close>

fun select_runs :: "nat \<Rightarrow> string list \<Rightarrow> string option \<Rightarrow> exn + (int list \<times> string option)" where
  "select_runs 0 available_videos state_file = Inr ([], state_file)"
| "select_runs (Suc k) available_videos state_file =
     (case select_video available_videos state_file of
        Inl e \<Rightarrow> Inl e
      | Inr (next_index, chosen, state_file') \<Rightarrow>
          (case select_runs k available_videos state_file' of
             Inl e \<Rightarrow> Inl e
           | Inr (indices, final) \<Rightarrow> Inr (next_index # indices, final)))"

section \<open>The external services\<close>

text \<open>
  The response of the text generation service. Reading its \<^verbatim>\<open>text\<close> property gives the
  text or raises (the library raises when the response holds no text).
\<close>

datatype response = Response "exn + string"

fun text_of :: "response \<Rightarrow> exn + string" where
  "text_of (Response r) = r"

text \<open>
  The two prompts of the script are f-strings with two holes each; a prompt is modelled
  by the values that fill the holes, the fixed text around them being the same in every
  call.
\<close>

datatype prompt = MasterPrompt string string | TagPrompt string string

text \<open>
  What the world outside answers: \<open>col_values n\<close> is the outcome of the \<open>n\<close>-th call
  of \<^verbatim>\<open>sheet.col_values(1)\<close>, \<open>random_choice n\<close> the number drawn by the \<open>n\<close>-th call
  of \<^verbatim>\<open>random.choice\<close> (reduced modulo the length of the list chosen from), and
  \<open>generate_content n p\<close> the outcome of the \<open>n\<close>-th call of
  \<^verbatim>\<open>gemini_model.generate_content\<close>, made with prompt \<open>p\<close>. Calls are counted from 0.
\<close>

record env =
  col_values :: "nat \<Rightarrow> exn + string list"
  random_choice :: "nat \<Rightarrow> nat"
  generate_content :: "nat \<Rightarrow> prompt \<Rightarrow> exn + response"

text \<open>The calls a run makes on the spreadsheet and on the generation service, in order.\<close>

datatype event = ColValues | Generate prompt

fun is_Generate :: "event \<Rightarrow> bool" where
  "is_Generate (Generate _) = True"
| "is_Generate ColValues = False"

section \<open>The content generator\<close>

text \<open>
  Lines 126 to 131 of \<^verbatim>\<open>create_quote_content\<close>: the three parts cut out of the response.
  Every exception of these lines is a value \<open>Inl\<close>.
\<close>

definition parse_response :: "response \<Rightarrow> exn + (string \<times> string \<times> string)" where
  "parse_response response =
     and_then (text_of response) (\<lambda>t1.
     and_then (split t1 ''PART_2:'') (\<lambda>ps.
     and_then (index ps 0) (\<lambda>p0.
     let part1 = strip (replace p0 ''PART_1:'' []) in
     and_then (text_of response) (\<lambda>t2.
     and_then (split t2 ''TITLE:'') (\<lambda>ts.
     and_then (index ts 0) (\<lambda>t0.
     and_then (split t0 ''PART_2:'') (\<lambda>qs.
     and_then (index qs 1) (\<lambda>q1.
     let part2 = strip q1 in
     and_then (text_of response) (\<lambda>t3.
     and_then (split t3 ''TITLE:'') (\<lambda>us.
     and_then (index us 1) (\<lambda>u1.
     let title = strip u1 in
     Inr (part1, part2, title))))))))))))"

definition MAX_ATTEMPTS :: nat where
  "MAX_ATTEMPTS = 5"

definition themes :: "string list" where
  "themes =
     [''Cognitive Dissonance'', ''Confirmation Bias'', ''The Dunning-Kruger Effect'',
      ''Imposter Syndrome'', ''The Paradox of Choice'', ''Cognitive Biases'',
      ''The Placebo Effect'', ''Emotional Intelligence'', ''The Subconscious Mind'',
      ''Memory and Perception'', ''Neuroplasticity'', ''Behavioral Psychology'']"

text \<open>
  Lines 81 to 86: the history read from the first column of the sheet, without its
  header row, one line per quote. \<^verbatim>\<open>except Exception\<close> turns a failure into the text
  \<^verbatim>\<open>None.\<close>; an exception that is no \<^verbatim>\<open>Exception\<close> goes on to the caller.
\<close>

definition read_history :: "env \<Rightarrow> exn + string" where
  "read_history env =
     (case col_values env 0 of
        Inr used \<Rightarrow> Inr (join [CHR 10] (map (\<lambda>quote. ''- '' @ quote) (tl used)))
      | Inl e \<Rightarrow> if is_Exception e then Inr ''None.'' else Inl e)"

text \<open>Lines 98 to 121: the prompt of one attempt.\<close>

definition master_prompt :: "env \<Rightarrow> string \<Rightarrow> nat \<Rightarrow> prompt" where
  "master_prompt env history_list attempt =
     MasterPrompt (themes ! (random_choice env attempt mod length themes)) history_list"

text \<open>
  Lines 89 to 136: the loop over \<^verbatim>\<open>range(MAX_ATTEMPTS)\<close>, given as the list of the attempt
  numbers still to come, and the \<^verbatim>\<open>return\<close> behind it. The call of the service stands
  outside the \<^verbatim>\<open>try\<close>; the three lines that cut the response stand inside. The result is
  what the function returns or raises, with the calls made on the service.
\<close>

fun attempts :: "env \<Rightarrow> string \<Rightarrow> nat list \<Rightarrow> (exn + (string \<times> string \<times> string)) \<times> event list" where
  "attempts env history_list [] =
     (Inr (''Error'', ''Could not generate unique quote.'', ''Error''), [])"
| "attempts env history_list (attempt # rest) =
     (let p = master_prompt env history_list attempt in
      case generate_content env attempt p of
        Inl e \<Rightarrow> (Inl e, [Generate p])
      | Inr response \<Rightarrow>
          (case parse_response response of
             Inr quote \<Rightarrow> (Inr quote, [Generate p])
           | Inl e \<Rightarrow>
               if is_Exception e then
                 (case attempts env history_list rest of (r, evs) \<Rightarrow> (r, Generate p # evs))
               else (Inl e, [Generate p])))"

definition create_quote_content :: "env \<Rightarrow> (exn + (string \<times> string \<times> string)) \<times> event list" where
  "create_quote_content env =
     (case read_history env of
        Inl e \<Rightarrow> (Inl e, [ColValues])
      | Inr history_list \<Rightarrow>
          (case attempts env history_list [0..<MAX_ATTEMPTS] of
             (r, evs) \<Rightarrow> (r, ColValues # evs)))"

section \<open>The tag brainstormer\<close>

text \<open>
  \<^verbatim>\<open>generate_extra_tags\<close>: one call of the generation service, the \<open>n\<close>-th of the run, and
  its text cut at the commas. Nothing here catches an exception.
\<close>

definition generate_extra_tags :: "env \<Rightarrow> nat \<Rightarrow> string \<Rightarrow> string \<Rightarrow> exn + string list" where
  "generate_extra_tags env n title quote_parts =
     and_then (generate_content env n (TagPrompt title quote_parts)) (\<lambda>response.
     and_then (text_of response) (\<lambda>t.
     and_then (split t '','') (\<lambda>pieces.
     Inr (map strip pieces))))"

section \<open>Failed attempts and example services\<close>

text \<open>
  An attempt fails to parse when the service answers and the three lines that cut the
  answer raise an \<^verbatim>\<open>Exception\<close>: the case the \<^verbatim>\<open>except\<close> clause of the loop catches.
\<close>

definition parse_fails :: "env \<Rightarrow> string \<Rightarrow> nat \<Rightarrow> bool" where
  "parse_fails env history_list attempt =
     (case generate_content env attempt (master_prompt env history_list attempt) of
        Inl e \<Rightarrow> False
      | Inr response \<Rightarrow>
          (case parse_response response of Inl e \<Rightarrow> is_Exception e | Inr quote \<Rightarrow> False))"

text \<open>
  Services for the examples: one whose third answer is the first well-formed one, one
  that never answers in the format and whose sheet cannot be read, one whose second
  call raises, one that answers with a list of tags, and one whose sheet cannot be
  read and whose third answer is well-formed.
\<close>

definition env_retry :: env where
  "env_retry =
     \<lparr>col_values = (\<lambda>n. Inr [''Hook'', ''q1'', ''q2'']),
      random_choice = (\<lambda>n. n + 13),
      generate_content = (\<lambda>n p.
        if n < 2 then Inr (Response (Inr ''garbage''))
        else Inr (Response (Inr ''PART_1: a PART_2: b TITLE: c'')))\<rparr>"

definition env_garbage :: env where
  "env_garbage =
     \<lparr>col_values = (\<lambda>n. Inl (OtherException ''APIError'')),
      random_choice = (\<lambda>n. 0),
      generate_content = (\<lambda>n p. Inr (Response (Inr ''garbage'')))\<rparr>"

definition env_quota :: env where
  "env_quota =
     \<lparr>col_values = (\<lambda>n. Inr []),
      random_choice = (\<lambda>n. 0),
      generate_content = (\<lambda>n p.
        if n = 1 then Inl (OtherException ''ResourceExhausted'')
        else Inr (Response (Inr ''garbage'')))\<rparr>"

definition env_tags :: env where
  "env_tags =
     \<lparr>col_values = (\<lambda>n. Inr []),
      random_choice = (\<lambda>n. 0),
      generate_content = (\<lambda>n p. Inr (Response (Inr ''a, b ,c'')))\<rparr>"

definition env_no_sheet :: env where
  "env_no_sheet =
     \<lparr>col_values = (\<lambda>n. Inl (OtherException ''APIError'')),
      random_choice = (\<lambda>n. n),
      generate_content = (\<lambda>n p.
        if n < 2 then Inr (Response (Inr ''garbage''))
        else Inr (Response (Inr ''PART_1: a PART_2: b TITLE: c'')))\<rparr>"

section \<open>Writing an index and reading it back\<close>

lemma isdigit_char_of: "(d::nat) < 10 \<Longrightarrow> isdigit (char_of (48 + d))"
  by (simp add: isdigit_def)

lemma digit_val_char_of: "d < 10 \<Longrightarrow> digit_val (char_of (48 + d)) = int d"
  by (simp add: digit_val_def)

lemma isdigit_not_space: "isdigit c \<Longrightarrow> \<not> int_space c"
  by (auto simp: isdigit_def int_space_def)

lemma isdigit_not_sign: "isdigit c \<Longrightarrow> c \<noteq> CHR ''-'' \<and> c \<noteq> CHR ''+'' \<and> c \<noteq> CHR ''_''"
  by (auto simp: isdigit_def)

lemma str_nat_digits: "\<forall>c \<in> set (str_nat n). isdigit c"
proof (induction n rule: str_nat.induct)
  case (1 n)
  show ?case
  proof (cases "n < 10")
    case True
    then show ?thesis by (simp add: str_nat.simps [of n] isdigit_char_of)
  next
    case False
    with 1 show ?thesis by (simp add: str_nat.simps [of n] isdigit_char_of)
  qed
qed

lemma str_nat_nonempty: "str_nat n \<noteq> []"
  by (simp add: str_nat.simps [of n])

lemma dropWhile_none: "\<forall>c \<in> set s. \<not> P c \<Longrightarrow> dropWhile P s = s"
  by (cases s) simp_all

lemma int_space_none:
  "\<forall>c \<in> set s. \<not> int_space c \<Longrightarrow> rev (dropWhile int_space (rev (dropWhile int_space s))) = s"
  by (simp add: dropWhile_none)

lemma str_nat_length: "n < 10 ^ d \<Longrightarrow> 0 < d \<Longrightarrow> length (str_nat n) \<le> d"
proof (induction n arbitrary: d rule: str_nat.induct)
  case (1 n)
  show ?case
  proof (cases "n < 10")
    case True
    with "1.prems"(2) show ?thesis by (simp add: str_nat.simps [of n] Suc_le_eq)
  next
    case False
    from "1.prems"(2) obtain d' where d: "d = Suc d'" by (cases d) auto
    with "1.prems"(1) have small: "n div 10 < 10 ^ d'"
      by (simp add: less_mult_imp_div_less mult.commute)
    have "0 < d'"
    proof (rule ccontr)
      assume "\<not> 0 < d'"
      with d "1.prems"(1) False show False by simp
    qed
    with False small "1.IH" have "length (str_nat (n div 10)) \<le> d'" by simp
    with False d show ?thesis by (simp add: str_nat.simps [of n])
  qed
qed

lemma parse_digits_append:
  "\<forall>c \<in> set ds. isdigit c \<Longrightarrow> isdigit d \<Longrightarrow>
   parse_digits acc (ds @ [d]) = map_option (\<lambda>v. 10 * v + digit_val d) (parse_digits acc ds)"
  by (induction ds arbitrary: acc) simp_all

lemma parse_digits_str_nat: "parse_digits 0 (str_nat n) = Some (int n)"
proof (induction n rule: str_nat.induct)
  case (1 n)
  show ?case
  proof (cases "n < 10")
    case True
    then show ?thesis
      by (simp add: str_nat.simps [of n] isdigit_char_of digit_val_char_of)
  next
    case False
    with 1 have "parse_digits 0 (str_nat (n div 10)) = Some (int (n div 10))" by simp
    with False show ?thesis
      by (simp add: str_nat.simps [of n] parse_digits_append str_nat_digits isdigit_char_of
          digit_val_char_of zdiv_int zmod_int)
  qed
qed

lemma parse_unsigned_digits:
  "parse_unsigned (str_nat n) = Some (int n)"
proof (cases "str_nat n")
  case Nil
  then show ?thesis by (simp add: str_nat_nonempty)
next
  case (Cons c cs)
  then have "isdigit c" using str_nat_digits [of n] by simp
  moreover have "parse_digits 0 (c # cs) = Some (int n)"
    using parse_digits_str_nat [of n] Cons by simp
  ultimately show ?thesis using Cons by (simp add: parse_unsigned_def)
qed

lemma py_int_py_str: "0 \<le> k \<Longrightarrow> py_int (py_str k) = Some k"
proof -
  assume k: "0 \<le> k"
  let ?s = "str_nat (nat k)"
  have ns: "rev (dropWhile int_space (rev (dropWhile int_space ?s))) = ?s"
    by (rule int_space_none) (simp add: str_nat_digits isdigit_not_space)
  obtain c cs where s: "?s = c # cs" using str_nat_nonempty [of "nat k"] by (cases ?s) auto
  then have "isdigit c" using str_nat_digits [of "nat k"] by simp
  then have "c \<noteq> CHR ''-''" "c \<noteq> CHR ''+''" by (simp_all add: isdigit_not_sign)
  then have "py_int ?s = parse_unsigned ?s"
    unfolding py_int_def ns by (simp add: s)
  with k show ?thesis by (simp add: py_str_def parse_unsigned_digits)
qed

text \<open>An index below \<open>10 ^ int_max_str_digits\<close> is written with digits within the limit.\<close>

lemma int_of_str_py_str:
  assumes "0 \<le> k" and "k < 10 ^ int_max_str_digits"
  shows "int_of_str (py_str k) = Some k"
proof -
  from assms have "int (nat k) < int (10 ^ int_max_str_digits)" by simp
  then have "nat k < 10 ^ int_max_str_digits" by (simp only: of_nat_less_iff)
  then have "length (str_nat (nat k)) \<le> int_max_str_digits"
    by (rule str_nat_length) (simp add: int_max_str_digits_def)
  moreover have "filter isdigit (str_nat (nat k)) = str_nat (nat k)"
    by (rule filter_True) (simp add: str_nat_digits)
  ultimately have "\<not> int_max_str_digits < length (filter isdigit (py_str k))"
    using assms(1) by (simp add: py_str_def)
  then show ?thesis using assms(1) by (simp add: int_of_str_def py_int_py_str)
qed

lemma read_last_index_py_str:
  "0 \<le> k \<Longrightarrow> k < 10 ^ int_max_str_digits \<Longrightarrow> read_last_index (Some (py_str k)) = k"
  by (simp add: read_last_index_def int_of_str_py_str)

lemma int_of_str_Some: "int_of_str s = Some n \<Longrightarrow> py_int s = Some n"
  by (simp add: int_of_str_def split: if_splits)

section \<open>Properties of the sequential selector\<close>

lemma select_video_Inr:
  "available_videos \<noteq> [] \<Longrightarrow>
   select_video available_videos state_file =
     (let k = (read_last_index state_file + 1) mod int (length available_videos)
      in Inr (k, available_videos ! nat k, Some (py_str k)))"
  by (simp add: select_video_def Let_def)

lemma select_runs_indices:
  "available_videos \<noteq> [] \<Longrightarrow> length available_videos \<le> 10 ^ int_max_str_digits \<Longrightarrow>
   \<exists>final. select_runs k available_videos state_file =
     Inr (map (\<lambda>i. (read_last_index state_file + 1 + int i) mod int (length available_videos)) [0..<k], final)"
proof (induction k arbitrary: state_file)
  case 0
  then show ?case by simp
next
  case (Suc k)
  let ?N = "int (length available_videos)"
  let ?j = "(read_last_index state_file + 1) mod ?N"
  have N: "0 < ?N" using Suc.prems by simp
  then have j: "0 \<le> ?j" by simp
  from Suc.prems(2) have "?N \<le> int (10 ^ int_max_str_digits)"
    by (simp only: of_nat_le_iff)
  also have "int (10 ^ int_max_str_digits) = 10 ^ int_max_str_digits" by simp
  finally have "?N \<le> 10 ^ int_max_str_digits" .
  moreover from N have "?j < ?N" by simp
  ultimately have jb: "?j < 10 ^ int_max_str_digits" by (rule less_le_trans [rotated])
  from Suc.IH [OF Suc.prems, of "Some (py_str ?j)"] obtain final where
    f: "select_runs k available_videos (Some (py_str ?j)) =
      Inr (map (\<lambda>i. (?j + 1 + int i) mod ?N) [0..<k], final)"
    by (auto simp: read_last_index_py_str [OF j jb])
  have shift: "(?j + 1 + int i) mod ?N = (read_last_index state_file + 1 + int (Suc i)) mod ?N" for i
  proof -
    have "(?j + (1 + int i)) mod ?N = (read_last_index state_file + 1 + (1 + int i)) mod ?N"
      by (rule mod_add_left_eq)
    then show ?thesis by (simp add: add.assoc)
  qed
  have "map (\<lambda>i. (read_last_index state_file + 1 + int i) mod ?N) [0..<Suc k]
      = ?j # map (\<lambda>i. (?j + 1 + int i) mod ?N) [0..<k]"
    unfolding shift by (simp add: upt_rec [of 0 "Suc k"] map_Suc_upt [symmetric] del: upt_Suc)
  with f show ?case
    by (simp add: select_video_Inr [OF Suc.prems(1)] Let_def del: upt_Suc)
qed


lemma py_str_0: "py_str 0 = ''0''"
  by code_simp

lemma cycle_inj:
  fixes c :: int and n :: nat
  assumes "i < n" "j < n" "(c + int i) mod int n = (c + int j) mod int n"
  shows "i = j"
proof -
  from assms(3) have "int n dvd (c + int i) - (c + int j)"
    by (simp add: mod_eq_dvd_iff)
  then have d: "int n dvd int i - int j" by simp
  have "\<bar>int i - int j\<bar> < int n" using assms(1,2) by linarith
  with d have "int i - int j = 0"
    using zdvd_not_zless [of "\<bar>int i - int j\<bar>" "int n"] by fastforce
  then show ?thesis by simp
qed

lemma cycle_distinct:
  fixes c :: int
  shows "distinct (map (\<lambda>i. (c + int i) mod int n) [0..<n])"
  by (auto simp: distinct_map inj_on_def dest: cycle_inj)

lemma cycle_set:
  fixes c :: int
  shows "set (map (\<lambda>i. (c + int i) mod int n) [0..<n]) = {0..<int n}"
proof (cases "n = 0")
  case True
  then show ?thesis by simp
next
  case False
  let ?f = "\<lambda>i. (c + int i) mod int n"
  have sub: "?f ` {0..<n} \<subseteq> {0..<int n}" using False by auto
  have "inj_on ?f {0..<n}" by (auto simp: inj_on_def dest: cycle_inj)
  then have "card (?f ` {0..<n}) = n" by (simp add: card_image)
  then have "?f ` {0..<n} = {0..<int n}"
    using sub by (intro card_subset_eq) simp_all
  then show ?thesis by simp
qed

lemma small_count: "(n::nat) \<le> 10 \<Longrightarrow> n \<le> 10 ^ int_max_str_digits"
proof -
  have "(10::nat) ^ 1 \<le> 10 ^ int_max_str_digits"
    by (rule power_increasing) (simp_all add: int_max_str_digits_def)
  then show "n \<le> 10 \<Longrightarrow> n \<le> 10 ^ int_max_str_digits" by simp
qed

lemma too_many_digits:
  "isdigit c \<Longrightarrow> int_max_str_digits < n \<Longrightarrow> int_of_str (replicate n c) = None"
  by (simp add: int_of_str_def)

text \<open>
  Claim C1. With at least one candidate video, a call of the selector on a state file
  whose text \<^verbatim>\<open>int\<close> reads as the integer \<open>L\<close> chooses the index \<open>(L + 1) mod N\<close> and writes
  its decimal text to the state file. With a number of candidates that a list can hold
  (at most \<open>10 ^ int_max_str_digits\<close>) the next call reads that index back, so that \<open>k\<close>
  successive calls that start without a state file choose
  \<open>0, 1, \<dots>, N - 1, 0, 1, \<dots>\<close>, from any state file they go on from the index stored, and
  \<open>N\<close> successive calls choose every candidate exactly once.
\<close>

theorem selector_round_robin:
  assumes "available_videos \<noteq> []"
  shows "(int_of_str content = Some L \<longrightarrow>
           select_video available_videos (Some content) =
             Inr ((L + 1) mod int (length available_videos),
                  available_videos ! nat ((L + 1) mod int (length available_videos)),
                  Some (py_str ((L + 1) mod int (length available_videos)))))
       \<and> py_int (py_str ((L + 1) mod int (length available_videos))) =
           Some ((L + 1) mod int (length available_videos))
       \<and> (length available_videos \<le> 10 ^ int_max_str_digits \<longrightarrow>
           read_last_index (Some (py_str ((L + 1) mod int (length available_videos)))) =
             (L + 1) mod int (length available_videos)
           \<and> (\<exists>final. select_runs k available_videos None =
                 Inr (map (\<lambda>i. int i mod int (length available_videos)) [0..<k], final))
           \<and> (\<exists>final. select_runs k available_videos state_file =
                 Inr (map (\<lambda>i. (read_last_index state_file + 1 + int i)
                              mod int (length available_videos)) [0..<k], final))
           \<and> (\<exists>indices final.
                 select_runs (length available_videos) available_videos state_file =
                   Inr (indices, final)
                 \<and> distinct indices \<and> set indices = {0..<int (length available_videos)}))"
proof -
  let ?N = "int (length available_videos)"
  have N: "0 < ?N" using assms by simp
  have one: "int_of_str content = Some L \<longrightarrow>
      select_video available_videos (Some content) =
        Inr ((L + 1) mod ?N, available_videos ! nat ((L + 1) mod ?N),
             Some (py_str ((L + 1) mod ?N)))"
    using assms by (simp add: select_video_def read_last_index_def Let_def)
  have two: "py_int (py_str ((L + 1) mod ?N)) = Some ((L + 1) mod ?N)"
    using N by (simp add: py_int_py_str)
  have rest: "read_last_index (Some (py_str ((L + 1) mod ?N))) = (L + 1) mod ?N
      \<and> (\<exists>final. select_runs k available_videos None =
            Inr (map (\<lambda>i. int i mod ?N) [0..<k], final))
      \<and> (\<exists>final. select_runs k available_videos state_file =
            Inr (map (\<lambda>i. (read_last_index state_file + 1 + int i) mod ?N) [0..<k], final))
      \<and> (\<exists>indices final.
            select_runs (length available_videos) available_videos state_file =
              Inr (indices, final)
            \<and> distinct indices \<and> set indices = {0..<?N})"
    if bound: "length available_videos \<le> 10 ^ int_max_str_digits"
  proof -
    from bound have "?N \<le> int (10 ^ int_max_str_digits)" by (simp only: of_nat_le_iff)
    also have "int (10 ^ int_max_str_digits) = 10 ^ int_max_str_digits" by simp
    finally have "?N \<le> 10 ^ int_max_str_digits" .
    moreover from N have "(L + 1) mod ?N < ?N" by simp
    ultimately have "(L + 1) mod ?N < 10 ^ int_max_str_digits" by (rule less_le_trans [rotated])
    moreover from N have "0 \<le> (L + 1) mod ?N" by simp
    ultimately have readback: "read_last_index (Some (py_str ((L + 1) mod ?N))) = (L + 1) mod ?N"
      by (intro read_last_index_py_str)
    have four: "\<exists>final. select_runs k available_videos st =
        Inr (map (\<lambda>i. (read_last_index st + 1 + int i) mod ?N) [0..<k], final)" for k st
      by (rule select_runs_indices [OF assms bound])
    have three: "\<exists>final. select_runs k available_videos None =
        Inr (map (\<lambda>i. int i mod ?N) [0..<k], final)"
      using four [of k None] by (simp add: read_last_index_def)
    obtain final where f: "select_runs (length available_videos) available_videos state_file =
        Inr (map (\<lambda>i. (read_last_index state_file + 1 + int i) mod ?N)
              [0..<length available_videos], final)"
      using four by blast
    have five: "\<exists>indices final.
        select_runs (length available_videos) available_videos state_file = Inr (indices, final)
        \<and> distinct indices \<and> set indices = {0..<?N}"
      using f cycle_distinct [of "read_last_index state_file + 1" "length available_videos"]
        cycle_set [of "read_last_index state_file + 1" "length available_videos"]
      by blast
    from readback three four five show ?thesis by blast
  qed
  from one two rest show ?thesis by blast
qed

text \<open>Three videos: one call from the stored index 4, seven calls from no state file.\<close>

theorem selector_round_robin_witness:
  "[''a.mp4'', ''b.mp4'', ''c.mp4''] \<noteq> []
   \<and> length [''a.mp4'', ''b.mp4'', ''c.mp4''] \<le> 10 ^ int_max_str_digits
   \<and> int_of_str ''4'' = Some 4
   \<and> select_video [''a.mp4'', ''b.mp4'', ''c.mp4''] (Some ''4'') = Inr (2, ''c.mp4'', Some ''2'')
   \<and> read_last_index (Some ''2'') = 2
   \<and> select_runs 7 [''a.mp4'', ''b.mp4'', ''c.mp4''] None = Inr ([0, 1, 2, 0, 1, 2, 0], Some ''0'')
   \<and> select_runs 3 [''a.mp4'', ''b.mp4'', ''c.mp4''] (Some ''4'') = Inr ([2, 0, 1], Some ''1'')"
proof -
  have ne: "[''a.mp4'', ''b.mp4'', ''c.mp4''] \<noteq> []" by simp
  have le: "length [''a.mp4'', ''b.mp4'', ''c.mp4''] \<le> 10 ^ int_max_str_digits"
    by (rule small_count) simp
  have p: "int_of_str ''4'' = Some 4" by code_simp
  have s2: "py_str 2 = ''2''" by code_simp
  have r1: "select_runs 7 [''a.mp4'', ''b.mp4'', ''c.mp4''] None = Inr ([0, 1, 2, 0, 1, 2, 0], Some ''0'')"
    by code_simp
  have r2: "select_runs 3 [''a.mp4'', ''b.mp4'', ''c.mp4''] (Some ''4'') = Inr ([2, 0, 1], Some ''1'')"
    by code_simp
  note w = selector_round_robin [OF ne, of "''4''" 4 7 "Some ''4''"]
  from w p
  have a: "select_video [''a.mp4'', ''b.mp4'', ''c.mp4''] (Some ''4'') = Inr (2, ''c.mp4'', Some ''2'')"
    by (simp add: s2)
  from w le have "read_last_index (Some (py_str ((4 + 1) mod int (length [''a.mp4'', ''b.mp4'', ''c.mp4''])))) =
      (4 + 1) mod int (length [''a.mp4'', ''b.mp4'', ''c.mp4''])"
    by blast
  then have b: "read_last_index (Some ''2'') = 2" by (simp add: s2)
  from ne le p a b r1 r2 show ?thesis by blast
qed

text \<open>
  Claim C5. With at least one candidate video, when the state file is absent or
  \<^verbatim>\<open>int\<close> raises \<^verbatim>\<open>ValueError\<close> on its text, the stored index counts as \<open>-1\<close> and the call
  chooses index 0 (and writes \<open>0\<close>). \<^verbatim>\<open>int\<close> raises on every text that is no integer
  literal and on every text with more digits than the limit.
\<close>

theorem selector_first_call:
  assumes "available_videos \<noteq> []"
    and "state_file = None \<or> (\<exists>content. state_file = Some content \<and> int_of_str content = None)"
  shows "read_last_index state_file = - 1
       \<and> select_video available_videos state_file = Inr (0, available_videos ! 0, Some ''0'')
       \<and> (\<forall>content. (py_int content = None \<or> int_max_str_digits < length (filter isdigit content))
             = (int_of_str content = None))"
proof -
  from assms(2) have r: "read_last_index state_file = - 1"
    by (auto simp: read_last_index_def)
  have "(py_int content = None \<or> int_max_str_digits < length (filter isdigit content))
      = (int_of_str content = None)" for content
    by (simp add: int_of_str_def)
  with r assms(1) show ?thesis
    by (simp add: select_video_def py_str_0)
qed

text \<open>
  Two videos, with no state file and with a state file that holds \<open>abc\<close>, nothing, a
  \<open>2\<close> behind the separator 28, or 4301 digits.
\<close>

theorem selector_first_call_witness:
  "[''a.mp4'', ''b.mp4''] \<noteq> []
   \<and> select_video [''a.mp4'', ''b.mp4''] None = Inr (0, ''a.mp4'', Some ''0'')
   \<and> int_of_str ''abc'' = None
   \<and> select_video [''a.mp4'', ''b.mp4''] (Some ''abc'') = Inr (0, ''a.mp4'', Some ''0'')
   \<and> int_of_str [] = None
   \<and> select_video [''a.mp4'', ''b.mp4''] (Some []) = Inr (0, ''a.mp4'', Some ''0'')
   \<and> int_of_str [CHR 28, CHR ''2''] = None
   \<and> select_video [''a.mp4'', ''b.mp4''] (Some [CHR 28, CHR ''2'']) = Inr (0, ''a.mp4'', Some ''0'')
   \<and> int_of_str (replicate 4301 CHR ''1'') = None
   \<and> select_video [''a.mp4'', ''b.mp4''] (Some (replicate 4301 CHR ''1'')) =
       Inr (0, ''a.mp4'', Some ''0'')"
proof -
  have ne: "[''a.mp4'', ''b.mp4''] \<noteq> []" by simp
  have p1: "int_of_str ''abc'' = None" by code_simp
  have p2: "int_of_str [] = None" by code_simp
  have p3: "int_of_str [CHR 28, CHR ''2''] = None" by code_simp
  have p4: "int_of_str (replicate 4301 CHR ''1'') = None"
    by (rule too_many_digits) (simp_all add: isdigit_def int_max_str_digits_def)
  note w = selector_first_call [OF ne, THEN conjunct2, THEN conjunct1]
  have a0: "select_video [''a.mp4'', ''b.mp4''] None = Inr (0, ''a.mp4'', Some ''0'')"
    using w [of None] by simp
  have a1: "select_video [''a.mp4'', ''b.mp4''] (Some ''abc'') = Inr (0, ''a.mp4'', Some ''0'')"
    using w [of "Some ''abc''"] p1 by simp
  have a2: "select_video [''a.mp4'', ''b.mp4''] (Some []) = Inr (0, ''a.mp4'', Some ''0'')"
    using w [of "Some []"] p2 by simp
  have a3: "select_video [''a.mp4'', ''b.mp4''] (Some [CHR 28, CHR ''2'']) =
      Inr (0, ''a.mp4'', Some ''0'')"
    using w [of "Some [CHR 28, CHR ''2'']"] p3 by simp
  have a4: "select_video [''a.mp4'', ''b.mp4''] (Some (replicate 4301 CHR ''1'')) =
      Inr (0, ''a.mp4'', Some ''0'')"
    using w [of "Some (replicate 4301 CHR ''1'')"] p4 by simp
  from ne a0 p1 a1 p2 a2 p3 a3 p4 a4 show ?thesis by blast
qed

text \<open>
  Claim C9. With at least one candidate video, whatever the state file held before,
  the call succeeds, the index it returns lies between 0 and \<open>N - 1\<close>, and the text it
  writes to the state file is that index: it reads back as the same integer.
\<close>

theorem selector_state_in_range:
  assumes "available_videos \<noteq> []"
  shows "\<exists>k. select_video available_videos state_file =
             Inr (k, available_videos ! nat k, Some (py_str k))
           \<and> 0 \<le> k \<and> k < int (length available_videos)
           \<and> py_int (py_str k) = Some k"
proof -
  let ?k = "(read_last_index state_file + 1) mod int (length available_videos)"
  have N: "0 < int (length available_videos)" using assms by simp
  then have "0 \<le> ?k" "?k < int (length available_videos)" by simp_all
  moreover from \<open>0 \<le> ?k\<close> have "py_int (py_str ?k) = Some ?k" by (rule py_int_py_str)
  moreover have "select_video available_videos state_file =
      Inr (?k, available_videos ! nat ?k, Some (py_str ?k))"
    using assms by (simp add: select_video_def Let_def)
  ultimately show ?thesis by blast
qed

text \<open>Three videos and the stored index \<open>-9\<close>.\<close>

theorem selector_state_in_range_witness:
  "[''a.mp4'', ''b.mp4'', ''c.mp4''] \<noteq> []
   \<and> (\<exists>k. select_video [''a.mp4'', ''b.mp4'', ''c.mp4''] (Some ''-9'') =
             Inr (k, [''a.mp4'', ''b.mp4'', ''c.mp4''] ! nat k, Some (py_str k))
           \<and> 0 \<le> k \<and> k < 3 \<and> py_int (py_str k) = Some k)"
proof -
  have ne: "[''a.mp4'', ''b.mp4'', ''c.mp4''] \<noteq> []" by simp
  from selector_state_in_range [OF ne, of "Some ''-9''"] ne show ?thesis by simp
qed

section \<open>Searching, cutting and replacing\<close>

lemma sublist_iff_prefix_drop: "sublist sub s \<longleftrightarrow> (\<exists>j\<le>length s. prefix sub (drop j s))"
proof
  assume "sublist sub s"
  then obtain ps ss where "s = ps @ sub @ ss" by (auto simp: sublist_def)
  then have "length ps \<le> length s" "prefix sub (drop (length ps) s)" by simp_all
  then show "\<exists>j\<le>length s. prefix sub (drop j s)" by blast
next
  assume "\<exists>j\<le>length s. prefix sub (drop j s)"
  then obtain j zs where "drop j s = sub @ zs" by (auto simp: prefix_def)
  then have "s = take j s @ sub @ zs" by (metis append_take_drop_id)
  then show "sublist sub s" unfolding sublist_def by blast
qed

lemma find_str_None_iff: "find_str sub s = None \<longleftrightarrow> \<not> sublist sub s"
  by (induction s) (auto simp: sublist_Cons_right)

lemma find_str_Some_iff:
  "find_str sub s = Some i \<longleftrightarrow>
     i \<le> length s \<and> prefix sub (drop i s) \<and> (\<forall>j<i. \<not> prefix sub (drop j s))"
proof (induction s arbitrary: i)
  case Nil
  then show ?case by auto
next
  case (Cons c cs)
  show ?case
  proof (cases "prefix sub (c # cs)")
    case True
    then show ?thesis by (cases i) auto
  next
    case False
    show ?thesis
    proof (cases i)
      case 0
      with False show ?thesis by simp
    next
      case (Suc k)
      have "(\<forall>j<Suc k. \<not> prefix sub (drop j (c # cs))) \<longleftrightarrow> (\<forall>j<k. \<not> prefix sub (drop j cs))"
        using False by (auto simp: less_Suc_eq_0_disj)
      with False Suc Cons.IH [of k] show ?thesis by auto
    qed
  qed
qed

lemma find_str_absent: "\<not> sublist sub s \<Longrightarrow> find_str sub s = None"
  by (simp add: find_str_None_iff)

lemma split_at_absent: "\<not> sublist sep s \<Longrightarrow> split_at sep s = [s]"
  by (simp add: split_at.simps [of sep s] find_str_absent)

lemma split_at_found:
  "sep \<noteq> [] \<Longrightarrow> find_str sep s = Some i \<Longrightarrow>
   split_at sep s = take i s # split_at sep (drop (i + length sep) s)"
  by (simp add: split_at.simps [of sep s])

lemma split_at_not_Nil: "split_at sep s \<noteq> []"
  by (simp add: split_at.simps [of sep s] split: option.splits)

lemma split_at_hd:
  "hd (split_at sep s) = (case find_str sep s of None \<Rightarrow> s | Some i \<Rightarrow> if sep = [] then s else take i s)"
  by (simp add: split_at.simps [of sep s] split: option.splits)

lemma split_at_two_iff: "sep \<noteq> [] \<Longrightarrow> 1 < length (split_at sep s) \<longleftrightarrow> sublist sep s"
proof (cases "find_str sep s")
  case None
  then show ?thesis using find_str_None_iff [of sep s] by (simp add: split_at.simps [of sep s])
next
  case (Some i)
  assume "sep \<noteq> []"
  moreover from Some have "sublist sep s" using find_str_None_iff [of sep s] by simp
  ultimately show ?thesis
    using Some split_at_not_Nil [of sep "drop (i + length sep) s"]
    by (simp add: split_at.simps [of sep s])
qed

lemma replace_at_absent: "\<not> sublist old s \<Longrightarrow> replace_at old new s = s"
  by (simp add: replace_at.simps [of old new s] find_str_absent)

text \<open>An occurrence that is the only one.\<close>

lemma occurrences_set: "set (occurrences sub s) = {i. i \<le> length s \<and> prefix sub (drop i s)}"
  by (auto simp: occurrences_def less_Suc_eq_le simp del: upt_Suc)

lemma occurrences_once:
  assumes "length (occurrences sub s) = 1" "p \<le> length s" "prefix sub (drop p s)"
    "i \<le> length s" "prefix sub (drop i s)"
  shows "i = p"
proof -
  from assms(1) obtain x where "occurrences sub s = [x]"
    by (cases "occurrences sub s") auto
  then have "set (occurrences sub s) = {x}" by simp
  moreover have "p \<in> set (occurrences sub s)" "i \<in> set (occurrences sub s)"
    using assms by (simp_all add: occurrences_set)
  ultimately show ?thesis by simp
qed

lemma prefix_drop_append: "i \<le> length u \<Longrightarrow> prefix sub (drop i u) \<Longrightarrow> prefix sub (drop i (u @ v))"
  by (auto simp: prefix_def)

lemma split_at_only:
  assumes "sep \<noteq> []"
    and only: "\<And>i. i \<le> length (a @ sep @ r) \<Longrightarrow> prefix sep (drop i (a @ sep @ r)) \<Longrightarrow> i = length a"
  shows "split_at sep (a @ sep @ r) = [a, r]"
proof -
  have "\<not> prefix sep (drop j (a @ sep @ r))" if "j < length a" for j
  proof
    assume "prefix sep (drop j (a @ sep @ r))"
    with that have "j = length a" by (intro only) simp_all
    with that show False by simp
  qed
  then have "find_str sep (a @ sep @ r) = Some (length a)"
    by (simp add: find_str_Some_iff)
  then have "split_at sep (a @ sep @ r) = a # split_at sep r"
    using assms(1) by (simp add: split_at_found)
  moreover have "\<not> sublist sep r"
  proof
    assume "sublist sep r"
    then obtain j where "j \<le> length r" "prefix sep (drop j r)"
      by (auto simp: sublist_iff_prefix_drop)
    then have "length a + length sep + j \<le> length (a @ sep @ r)"
      "prefix sep (drop (length a + length sep + j) (a @ sep @ r))"
      by simp_all
    then have "length a + length sep + j = length a" by (rule only)
    with assms(1) show False by simp
  qed
  ultimately show ?thesis by (simp add: split_at_absent)
qed

lemma replace_at_only:
  assumes "old \<noteq> []"
    and only: "\<And>i. i \<le> length (old @ r) \<Longrightarrow> prefix old (drop i (old @ r)) \<Longrightarrow> i = 0"
  shows "replace_at old [] (old @ r) = r"
proof -
  have "find_str old (old @ r) = Some 0"
    unfolding find_str_Some_iff by simp
  then have "replace_at old [] (old @ r) = replace_at old [] r"
    using assms(1) by (simp add: replace_at.simps [of old "[]" "old @ r"])
  moreover have "\<not> sublist old r"
  proof
    assume "sublist old r"
    then obtain j where "j \<le> length r" "prefix old (drop j r)"
      by (auto simp: sublist_iff_prefix_drop)
    then have "length old + j \<le> length (old @ r)" "prefix old (drop (length old + j) (old @ r))"
      by simp_all
    then have "length old + j = 0" by (rule only)
    with assms(1) show False by simp
  qed
  ultimately show ?thesis by (simp add: replace_at_absent)
qed

lemma sublist_take: "sublist sub (take i s) \<Longrightarrow> sublist sub s"
  by (metis append_take_drop_id sublist_append)

lemma find_str_char_absent: "c \<notin> set s \<Longrightarrow> find_str [c] s = None"
  by (induction s) auto

lemma find_str_char_first: "c \<notin> set a \<Longrightarrow> find_str [c] (a @ c # r) = Some (length a)"
  by (induction a) auto

lemma split_at_join:
  "ps \<noteq> [] \<Longrightarrow> \<forall>p \<in> set ps. c \<notin> set p \<Longrightarrow> split_at [c] (join [c] ps) = ps"
proof (induction ps)
  case Nil
  then show ?case by simp
next
  case (Cons p ps)
  show ?case
  proof (cases ps)
    case Nil
    with Cons.prems show ?thesis
      by (simp add: split_at.simps [of "[c]" p] find_str_char_absent)
  next
    case (Cons q qs)
    with Cons.prems Cons.IH have ih: "split_at [c] (join [c] ps) = ps" by simp
    have "find_str [c] (p @ c # join [c] ps) = Some (length p)"
      using Cons.prems by (simp add: find_str_char_first)
    then have "split_at [c] (p @ c # join [c] ps) = p # split_at [c] (join [c] ps)"
      by (simp add: split_at.simps [of "[c]" "p @ c # join [c] ps"])
    with ih Cons show ?thesis by simp
  qed
qed

section \<open>The parser\<close>

lemma parse_response_text:
  "parse_response (Response (Inr t)) =
     (if sublist ''PART_2:'' (hd (split_at ''TITLE:'' t)) \<and> sublist ''TITLE:'' t then
        Inr (strip (replace_at ''PART_1:'' [] (hd (split_at ''PART_2:'' t))),
             strip (split_at ''PART_2:'' (hd (split_at ''TITLE:'' t)) ! 1),
             strip (split_at ''TITLE:'' t ! 1))
      else Inl IndexError)"
proof -
  have a: "0 < length (split_at sep s)" for sep s
    using split_at_not_Nil [of sep s] by simp
  have b: "1 < length (split_at ''TITLE:'' t) \<longleftrightarrow> sublist ''TITLE:'' t"
    by (rule split_at_two_iff) simp
  have c: "1 < length (split_at ''PART_2:'' s) \<longleftrightarrow> sublist ''PART_2:'' s" for s
    by (rule split_at_two_iff) simp
  show ?thesis
    unfolding parse_response_def
    by (simp add: and_then_def split_def index_def replace_def Let_def a b c hd_conv_nth
        split_at_not_Nil del: One_nat_def)
qed

lemma parse_response_text_cases:
  "parse_response (Response (Inr t)) = Inl IndexError
   \<or> (\<exists>q. parse_response (Response (Inr t)) = Inr q)"
  by (simp add: parse_response_text)

lemma parse_response_succeeds_iff:
  "(\<exists>q. parse_response (Response (Inr t)) = Inr q) \<longleftrightarrow>
     (\<exists>i. find_str ''TITLE:'' t = Some i \<and> sublist ''PART_2:'' (take i t))"
proof (cases "find_str ''TITLE:'' t")
  case None
  then have "\<not> sublist ''TITLE:'' t" by (simp add: find_str_None_iff)
  with None show ?thesis by (simp add: parse_response_text)
next
  case (Some i)
  then have "sublist ''TITLE:'' t" using find_str_None_iff [of "''TITLE:''" t] by simp
  moreover have "hd (split_at ''TITLE:'' t) = take i t"
    using Some by (simp add: split_at_hd)
  ultimately show ?thesis using Some by (simp add: parse_response_text)
qed

lemma generate_extra_tags_text:
  "generate_content env n (TagPrompt title quote_parts) = Inr (Response (Inr t)) \<Longrightarrow>
   generate_extra_tags env n title quote_parts = Inr (map strip (split_at '','' t))"
  by (simp add: generate_extra_tags_def and_then_def split_def)

section \<open>The loop\<close>

lemma attempts_retry:
  "parse_fails env h a \<Longrightarrow>
   attempts env h (a # rest) =
     (fst (attempts env h rest), Generate (master_prompt env h a) # snd (attempts env h rest))"
  by (auto simp: parse_fails_def Let_def split: sum.splits prod.splits)

lemma attempts_failed_prefix:
  "\<forall>a \<in> set xs. parse_fails env h a \<Longrightarrow>
   attempts env h (xs @ ys) =
     (fst (attempts env h ys),
      map (\<lambda>a. Generate (master_prompt env h a)) xs @ snd (attempts env h ys))"
proof (induction xs)
  case Nil
  then show ?case by simp
next
  case (Cons x xs)
  then have "parse_fails env h x" by simp
  then have "attempts env h ((x # xs) @ ys) =
      (fst (attempts env h (xs @ ys)),
       Generate (master_prompt env h x) # snd (attempts env h (xs @ ys)))"
    using attempts_retry [of env h x "xs @ ys"] by (simp del: attempts.simps)
  with Cons show ?case by (simp del: attempts.simps)
qed

lemma attempts_events:
  "\<exists>n \<le> length xs. snd (attempts env h xs) = map (\<lambda>a. Generate (master_prompt env h a)) (take n xs)"
proof (induction xs)
  case Nil
  then show ?case by simp
next
  case (Cons x xs)
  then obtain n where n: "n \<le> length xs"
    "snd (attempts env h xs) = map (\<lambda>a. Generate (master_prompt env h a)) (take n xs)"
    by blast
  let ?g = "\<lambda>a. Generate (master_prompt env h a)"
  have "snd (attempts env h (x # xs)) = map ?g (take 1 (x # xs))
      \<or> snd (attempts env h (x # xs)) = map ?g (take (Suc n) (x # xs))"
    using n(2) by (auto simp: Let_def split: sum.splits prod.splits)
  then show ?case
  proof
    assume "snd (attempts env h (x # xs)) = map ?g (take 1 (x # xs))"
    moreover have "1 \<le> length (x # xs)" by simp
    ultimately show ?thesis by blast
  next
    assume "snd (attempts env h (x # xs)) = map ?g (take (Suc n) (x # xs))"
    moreover have "Suc n \<le> length (x # xs)" using n(1) by simp
    ultimately show ?thesis by blast
  qed
qed

lemma attempts_length: "length (snd (attempts env h xs)) \<le> length xs"
  using attempts_events [of xs env h] by auto

lemma attempts_Generate: "ev \<in> set (snd (attempts env h xs)) \<Longrightarrow> \<exists>th. ev = Generate (MasterPrompt th h)"
  using attempts_events [of xs env h] by (auto simp: master_prompt_def)

lemma filter_Generate_attempts:
  "filter is_Generate (snd (attempts env h xs)) = snd (attempts env h xs)"
  by (rule filter_True) (auto dest: attempts_Generate)

lemma upt_split: "k < n \<Longrightarrow> [0..<n] = [0..<k] @ k # [Suc k..<n]"
  by (metis less_imp_le_nat upt_add_eq_append upt_conv_Cons zero_le le_add_diff_inverse plus_nat.add_0)

lemma attempts_all_fail:
  assumes "\<forall>a<n. parse_fails env h a"
  shows "attempts env h [0..<n] =
    (Inr (''Error'', ''Could not generate unique quote.'', ''Error''),
     map (\<lambda>a. Generate (master_prompt env h a)) [0..<n])"
  using attempts_failed_prefix [of "[0..<n]" env h "[]"] assms by simp

lemma attempts_first_success:
  assumes "k < n" "\<forall>a<k. parse_fails env h a"
    "generate_content env k (master_prompt env h k) = Inr response"
    "parse_response response = Inr quote"
  shows "attempts env h [0..<n] =
    (Inr quote, map (\<lambda>a. Generate (master_prompt env h a)) [0..<Suc k])"
proof -
  have "attempts env h (k # [Suc k..<n]) = (Inr quote, [Generate (master_prompt env h k)])"
    using assms(3,4) by (simp add: Let_def)
  then show ?thesis
    using attempts_failed_prefix [of "[0..<k]" env h "k # [Suc k..<n]"] assms(1,2)
    by (simp add: upt_split [OF assms(1)])
qed

lemma attempts_service_error:
  assumes "k < n" "\<forall>a<k. parse_fails env h a"
    "generate_content env k (master_prompt env h k) = Inl e"
  shows "attempts env h [0..<n] =
    (Inl e, map (\<lambda>a. Generate (master_prompt env h a)) [0..<Suc k])"
proof -
  have "attempts env h (k # [Suc k..<n]) = (Inl e, [Generate (master_prompt env h k)])"
    using assms(3) by (simp add: Let_def)
  then show ?thesis
    using attempts_failed_prefix [of "[0..<k]" env h "k # [Suc k..<n]"] assms(1,2)
    by (simp add: upt_split [OF assms(1)])
qed

lemma attempts_first_call:
  "\<exists>evs. snd (attempts env h (a # rest)) = Generate (master_prompt env h a) # evs"
  by (auto simp: Let_def split: sum.splits prod.splits)

lemma create_quote_content_history:
  "read_history env = Inr h \<Longrightarrow>
   create_quote_content env =
     (fst (attempts env h [0..<MAX_ATTEMPTS]), ColValues # snd (attempts env h [0..<MAX_ATTEMPTS]))"
  by (simp add: create_quote_content_def split: prod.splits)

lemma attempts_no_ColValues: "ColValues \<notin> set (snd (attempts env h xs))"
  using attempts_Generate [of ColValues env h xs] by auto

lemma attempts_same_result:
  assumes "random_choice env' = random_choice env"
    and "generate_content env' = generate_content env"
    and "\<forall>n th h1 h2. generate_content env n (MasterPrompt th h1) =
           generate_content env n (MasterPrompt th h2)"
  shows "fst (attempts env' h' xs) = fst (attempts env h xs)"
proof (induction xs)
  case Nil
  then show ?case by simp
next
  case (Cons x xs)
  have "generate_content env' x (master_prompt env' h' x) =
      generate_content env x (master_prompt env h x)"
    using assms by (simp add: master_prompt_def)
  with Cons show ?case
    by (auto simp: Let_def split: sum.splits prod.splits)
qed

lemma attempts_returns:
  assumes "\<forall>n p. \<exists>t. generate_content env n p = Inr (Response (Inr t))"
  shows "\<exists>q. fst (attempts env h xs) = Inr q"
proof (induction xs)
  case Nil
  then show ?case by simp
next
  case (Cons x xs)
  from assms obtain t where t: "generate_content env x (master_prompt env h x) = Inr (Response (Inr t))"
    by blast
  from parse_response_text_cases [of t] show ?case
  proof
    assume "parse_response (Response (Inr t)) = Inl IndexError"
    with t Cons show ?thesis by (auto simp: Let_def split: prod.splits)
  next
    assume "\<exists>q. parse_response (Response (Inr t)) = Inr q"
    with t show ?thesis by (auto simp: Let_def)
  qed
qed

section \<open>The example services\<close>

lemma parse_garbage: "parse_response (Response (Inr ''garbage'')) = Inl IndexError"
  by code_simp

lemma parse_abc: "parse_response (Response (Inr ''PART_1: a PART_2: b TITLE: c'')) = Inr (''a'', ''b'', ''c'')"
  by code_simp

lemma read_history_garbage: "read_history env_garbage = Inr ''None.''"
  by (simp add: read_history_def env_garbage_def)

lemma read_history_retry: "read_history env_retry = Inr ''- q1\<newline>- q2''"
  by (simp add: read_history_def env_retry_def)

lemma read_history_quota: "read_history env_quota = Inr []"
  by (simp add: read_history_def env_quota_def)

lemma parse_fails_garbage: "parse_fails env_garbage h a"
  by (simp add: parse_fails_def env_garbage_def parse_garbage)

lemma parse_fails_retry: "a < 2 \<Longrightarrow> parse_fails env_retry h a"
  by (simp add: parse_fails_def env_retry_def parse_garbage)

lemma parse_fails_quota: "a \<noteq> 1 \<Longrightarrow> parse_fails env_quota h a"
  by (simp add: parse_fails_def env_quota_def parse_garbage)

lemma master_prompt_garbage:
  "master_prompt env_garbage h a = MasterPrompt ''Cognitive Dissonance'' h"
  by (simp add: master_prompt_def env_garbage_def themes_def)

lemma master_prompt_quota:
  "master_prompt env_quota h a = MasterPrompt ''Cognitive Dissonance'' h"
  by (simp add: master_prompt_def env_quota_def themes_def)

lemma master_prompt_retry:
  "master_prompt env_retry h 0 = MasterPrompt ''Confirmation Bias'' h"
  "master_prompt env_retry h (Suc 0) = MasterPrompt ''The Dunning-Kruger Effect'' h"
  "master_prompt env_retry h 2 = MasterPrompt ''Imposter Syndrome'' h"
  by (simp_all add: master_prompt_def env_retry_def themes_def)

lemma upt_5: "[0..<5] = [0, 1, 2, 3, 4]"
  by code_simp

lemma read_history_no_sheet: "read_history env_no_sheet = Inr ''None.''"
  by (simp add: read_history_def env_no_sheet_def)

lemma parse_fails_no_sheet: "a < 2 \<Longrightarrow> parse_fails env_no_sheet h a"
  by (simp add: parse_fails_def env_no_sheet_def parse_garbage)

lemma master_prompt_no_sheet:
  "master_prompt env_no_sheet h 0 = MasterPrompt ''Cognitive Dissonance'' h"
  "master_prompt env_no_sheet h (Suc 0) = MasterPrompt ''Confirmation Bias'' h"
  "master_prompt env_no_sheet h 2 = MasterPrompt ''The Dunning-Kruger Effect'' h"
  by (simp_all add: master_prompt_def env_no_sheet_def themes_def)

lemma upt_3: "[0..<Suc 2] = [0, 1, 2]"
  by code_simp

lemma upt_2: "[0..<Suc 1] = [0, 1]"
  by code_simp

section \<open>Properties of the parser\<close>

lemma markers_once:
  fixes m1 m2 m3 :: string
  assumes ne: "m1 \<noteq> []" "m2 \<noteq> []" "m3 \<noteq> []"
    and t: "t = m1 @ A @ m2 @ B @ m3 @ C"
    and o1: "length (occurrences m1 t) = 1"
    and o2: "length (occurrences m2 t) = 1"
    and o3: "length (occurrences m3 t) = 1"
  shows "replace_at m1 [] (hd (split_at m2 t)) = A"
    and "split_at m2 (hd (split_at m3 t)) ! 1 = B"
    and "split_at m3 t ! 1 = C"
    and "sublist m2 (hd (split_at m3 t))"
    and "sublist m3 t"
proof -
  have u1: "i = 0" if "i \<le> length t" "prefix m1 (drop i t)" for i
    by (rule occurrences_once [OF o1 _ _ that]) (simp_all add: t)
  have u2: "i = length (m1 @ A)" if "i \<le> length t" "prefix m2 (drop i t)" for i
    by (rule occurrences_once [OF o2 _ _ that]) (simp_all add: t)
  have u3: "i = length (m1 @ A @ m2 @ B)" if "i \<le> length t" "prefix m3 (drop i t)" for i
    by (rule occurrences_once [OF o3 _ _ that]) (simp_all add: t)
  have "split_at m2 ((m1 @ A) @ m2 @ (B @ m3 @ C)) = [m1 @ A, B @ m3 @ C]"
    using ne(2) u2 by (intro split_at_only) (simp_all add: t)
  then have s2: "split_at m2 t = [m1 @ A, B @ m3 @ C]" by (simp add: t)
  have "split_at m3 ((m1 @ A @ m2 @ B) @ m3 @ C) = [m1 @ A @ m2 @ B, C]"
    using ne(3) u3 by (intro split_at_only) (simp_all add: t)
  then have s3: "split_at m3 t = [m1 @ A @ m2 @ B, C]" by (simp add: t)
  have "i = length (m1 @ A)"
    if "i \<le> length ((m1 @ A) @ m2 @ B)" "prefix m2 (drop i ((m1 @ A) @ m2 @ B))" for i
  proof -
    from that have "prefix m2 (drop i (((m1 @ A) @ m2 @ B) @ m3 @ C))"
      by (rule prefix_drop_append)
    moreover from that(1) have "i \<le> length t" by (simp add: t)
    ultimately show ?thesis using u2 [of i] by (simp add: t)
  qed
  then have "split_at m2 ((m1 @ A) @ m2 @ B) = [m1 @ A, B]"
    using ne(2) by (intro split_at_only) simp_all
  then have s4: "split_at m2 (m1 @ A @ m2 @ B) = [m1 @ A, B]" by simp
  have r1: "replace_at m1 [] (m1 @ A) = A"
  proof (rule replace_at_only [OF ne(1)])
    fix i
    assume a: "i \<le> length (m1 @ A)" "prefix m1 (drop i (m1 @ A))"
    then have "prefix m1 (drop i ((m1 @ A) @ m2 @ B @ m3 @ C))"
      by (rule prefix_drop_append)
    moreover from a(1) have "i \<le> length t" by (simp add: t)
    ultimately show "i = 0" using u1 [of i] by (simp add: t)
  qed
  show "replace_at m1 [] (hd (split_at m2 t)) = A" by (simp add: s2 r1)
  show "split_at m2 (hd (split_at m3 t)) ! 1 = B" by (simp add: s3 s4)
  show "split_at m3 t ! 1 = C" by (simp add: s3)
  have "sublist m2 ((m1 @ A) @ m2 @ B)" by (rule sublist_appendI)
  then show "sublist m2 (hd (split_at m3 t))" by (simp add: s3)
  have "sublist m3 ((m1 @ A @ m2 @ B) @ m3 @ C)" by (rule sublist_appendI)
  then show "sublist m3 t" by (simp add: t)
qed

text \<open>
  Claim C2. For a response text \<open>PART_1: A PART_2: B TITLE: C\<close> in which each of the
  three markers occurs exactly once, the parser returns the three payloads with the
  white space around each removed, and a generator whose first answer is this text
  returns that triple after one call of the service.
\<close>

theorem parse_well_formed:
  assumes t: "t = ''PART_1:'' @ A @ ''PART_2:'' @ B @ ''TITLE:'' @ C"
    and o1: "length (occurrences ''PART_1:'' t) = 1"
    and o2: "length (occurrences ''PART_2:'' t) = 1"
    and o3: "length (occurrences ''TITLE:'' t) = 1"
  shows "parse_response (Response (Inr t)) = Inr (strip A, strip B, strip C)
       \<and> (\<forall>env h. read_history env = Inr h
             \<and> generate_content env 0 (master_prompt env h 0) = Inr (Response (Inr t))
           \<longrightarrow> create_quote_content env =
                 (Inr (strip A, strip B, strip C), [ColValues, Generate (master_prompt env h 0)]))"
proof -
  have ne: "''PART_1:'' \<noteq> []" "''PART_2:'' \<noteq> []" "''TITLE:'' \<noteq> []" by simp_all
  note m = markers_once [OF ne t o1 o2 o3]
  have p: "parse_response (Response (Inr t)) = Inr (strip A, strip B, strip C)"
    by (simp only: parse_response_text m simp_thms if_True)
  have "create_quote_content env =
      (Inr (strip A, strip B, strip C), [ColValues, Generate (master_prompt env h 0)])"
    if "read_history env = Inr h"
      "generate_content env 0 (master_prompt env h 0) = Inr (Response (Inr t))" for env h
  proof -
    have "attempts env h [0..<MAX_ATTEMPTS] =
        (Inr (strip A, strip B, strip C), map (\<lambda>a. Generate (master_prompt env h a)) [0..<Suc 0])"
      by (rule attempts_first_success [OF _ _ that(2) p]) (simp_all add: MAX_ATTEMPTS_def)
    with that(1) show ?thesis by (simp add: create_quote_content_history)
  qed
  with p show ?thesis by blast
qed

text \<open>The response of the format, with a space after each marker and line breaks between.\<close>

theorem parse_well_formed_witness:
  "length (occurrences ''PART_1:'' ''PART_1: A\<newline>PART_2: B\<newline>TITLE: C'') = 1
   \<and> length (occurrences ''PART_2:'' ''PART_1: A\<newline>PART_2: B\<newline>TITLE: C'') = 1
   \<and> length (occurrences ''TITLE:'' ''PART_1: A\<newline>PART_2: B\<newline>TITLE: C'') = 1
   \<and> parse_response (Response (Inr ''PART_1: A\<newline>PART_2: B\<newline>TITLE: C'')) = Inr (''A'', ''B'', ''C'')
   \<and> read_history env_retry = Inr ''- q1\<newline>- q2''
   \<and> create_quote_content (env_retry\<lparr>generate_content := (\<lambda>n p. Inr (Response (Inr ''PART_1: A\<newline>PART_2: B\<newline>TITLE: C'')))\<rparr>) =
       (Inr (''A'', ''B'', ''C''), [ColValues, Generate (MasterPrompt ''Confirmation Bias'' ''- q1\<newline>- q2'')])"
proof -
  let ?t = "''PART_1: A\<newline>PART_2: B\<newline>TITLE: C''"
  let ?env = "env_retry\<lparr>generate_content := (\<lambda>n p. Inr (Response (Inr ?t)))\<rparr>"
  have t: "?t = ''PART_1:'' @ '' A\<newline>'' @ ''PART_2:'' @ '' B\<newline>'' @ ''TITLE:'' @ '' C''" by simp
  have o1: "length (occurrences ''PART_1:'' ?t) = 1" by code_simp
  have o2: "length (occurrences ''PART_2:'' ?t) = 1" by code_simp
  have o3: "length (occurrences ''TITLE:'' ?t) = 1" by code_simp
  have s: "strip '' A\<newline>'' = ''A''" "strip '' B\<newline>'' = ''B''" "strip '' C'' = ''C''"
    by code_simp+
  have h: "read_history env_retry = Inr ''- q1\<newline>- q2''" by code_simp
  then have h': "read_history ?env = Inr ''- q1\<newline>- q2''"
    by (simp add: read_history_def env_retry_def)
  have mp: "master_prompt ?env ''- q1\<newline>- q2'' 0 = MasterPrompt ''Confirmation Bias'' ''- q1\<newline>- q2''"
    by (simp add: master_prompt_def env_retry_def themes_def)
  have g: "generate_content ?env 0 (master_prompt ?env ''- q1\<newline>- q2'' 0) = Inr (Response (Inr ?t))"
    by simp
  note w = parse_well_formed [OF t o1 o2 o3, unfolded s]
  have a: "parse_response (Response (Inr ?t)) = Inr (''A'', ''B'', ''C'')"
    using w by (rule conjunct1)
  have "create_quote_content ?env =
      (Inr (''A'', ''B'', ''C''), [ColValues, Generate (master_prompt ?env ''- q1\<newline>- q2'' 0)])"
    using w [THEN conjunct2, rule_format, of ?env "''- q1\<newline>- q2''"] h' g by blast
  then have b: "create_quote_content ?env =
      (Inr (''A'', ''B'', ''C''), [ColValues, Generate (MasterPrompt ''Confirmation Bias'' ''- q1\<newline>- q2'')])"
    unfolding mp .
  from o1 o2 o3 a h b show ?thesis by blast
qed

text \<open>
  Claim C3, as the code has it. For a response text the three lines fail, with
  \<^verbatim>\<open>IndexError\<close>, exactly when \<^verbatim>\<open>TITLE:\<close> does not occur or \<^verbatim>\<open>PART_2:\<close> does not occur before
  the first \<^verbatim>\<open>TITLE:\<close>; so they fail whenever \<^verbatim>\<open>PART_2:\<close> or \<^verbatim>\<open>TITLE:\<close> is absent. The loop
  catches the failure and goes on to the next attempt. The marker \<^verbatim>\<open>PART_1:\<close> plays no
  part in it: it is only removed where it stands.
\<close>

theorem parse_failure_markers:
  "(parse_response (Response (Inr t)) = Inl IndexError \<longleftrightarrow>
      \<not> (\<exists>i. find_str ''TITLE:'' t = Some i \<and> sublist ''PART_2:'' (take i t)))
   \<and> (\<not> sublist ''PART_2:'' t \<or> \<not> sublist ''TITLE:'' t \<longrightarrow>
        parse_response (Response (Inr t)) = Inl IndexError)
   \<and> (\<forall>env h a rest.
        generate_content env a (master_prompt env h a) = Inr (Response (Inr t))
        \<and> parse_response (Response (Inr t)) = Inl IndexError
        \<longrightarrow> attempts env h (a # rest) =
              (fst (attempts env h rest),
               Generate (master_prompt env h a) # snd (attempts env h rest)))"
proof -
  have either: "parse_response (Response (Inr t)) = Inl IndexError
      \<or> (\<exists>q. parse_response (Response (Inr t)) = Inr q)"
    by (simp add: parse_response_text)
  have one: "parse_response (Response (Inr t)) = Inl IndexError \<longleftrightarrow>
      \<not> (\<exists>i. find_str ''TITLE:'' t = Some i \<and> sublist ''PART_2:'' (take i t))"
    using either parse_response_succeeds_iff [of t] by auto
  have two: "parse_response (Response (Inr t)) = Inl IndexError"
    if "\<not> sublist ''PART_2:'' t \<or> \<not> sublist ''TITLE:'' t"
  proof -
    have "\<not> (\<exists>i. find_str ''TITLE:'' t = Some i \<and> sublist ''PART_2:'' (take i t))"
    proof
      assume "\<exists>i. find_str ''TITLE:'' t = Some i \<and> sublist ''PART_2:'' (take i t)"
      then obtain i where i: "find_str ''TITLE:'' t = Some i" "sublist ''PART_2:'' (take i t)"
        by blast
      from i(1) have "sublist ''TITLE:'' t" using find_str_None_iff [of "''TITLE:''" t] by simp
      moreover from i(2) have "sublist ''PART_2:'' t" by (rule sublist_take)
      ultimately show False using that by blast
    qed
    with one show ?thesis by blast
  qed
  have three: "attempts env h (a # rest) =
      (fst (attempts env h rest), Generate (master_prompt env h a) # snd (attempts env h rest))"
    if "generate_content env a (master_prompt env h a) = Inr (Response (Inr t))"
      "parse_response (Response (Inr t)) = Inl IndexError" for env h a rest
    by (rule attempts_retry) (simp add: parse_fails_def that)
  from one two three show ?thesis by blast
qed

text \<open>A response without \<^verbatim>\<open>PART_2:\<close>, one without any marker, and the retry after it.\<close>

theorem parse_failure_markers_witness:
  "\<not> sublist ''PART_2:'' ''PART_1: a TITLE: b''
   \<and> parse_response (Response (Inr ''PART_1: a TITLE: b'')) = Inl IndexError
   \<and> \<not> sublist ''TITLE:'' ''garbage''
   \<and> parse_response (Response (Inr ''garbage'')) = Inl IndexError
   \<and> generate_content env_garbage 0 (master_prompt env_garbage ''None.'' 0) = Inr (Response (Inr ''garbage''))
   \<and> attempts env_garbage ''None.'' [0] =
       (Inr (''Error'', ''Could not generate unique quote.'', ''Error''),
        [Generate (MasterPrompt ''Cognitive Dissonance'' ''None.'')])"
proof -
  have a: "\<not> sublist ''PART_2:'' ''PART_1: a TITLE: b''" by code_simp
  have b: "\<not> sublist ''TITLE:'' ''garbage''" by code_simp
  have c: "parse_response (Response (Inr ''PART_1: a TITLE: b'')) = Inl IndexError"
    using parse_failure_markers [of "''PART_1: a TITLE: b''", THEN conjunct2, THEN conjunct1] a by blast
  have d: "parse_response (Response (Inr ''garbage'')) = Inl IndexError"
    using parse_failure_markers [of "''garbage''", THEN conjunct2, THEN conjunct1] b by blast
  have g: "generate_content env_garbage 0 (master_prompt env_garbage ''None.'' 0) =
      Inr (Response (Inr ''garbage''))"
    by (simp add: env_garbage_def)
  have mp: "master_prompt env_garbage ''None.'' 0 = MasterPrompt ''Cognitive Dissonance'' ''None.''"
    by (simp add: master_prompt_def env_garbage_def themes_def)
  have "attempts env_garbage ''None.'' [0] =
      (fst (attempts env_garbage ''None.'' []),
       Generate (master_prompt env_garbage ''None.'' 0) # snd (attempts env_garbage ''None.'' []))"
    using parse_failure_markers [of "''garbage''", THEN conjunct2, THEN conjunct2, rule_format,
        where env = env_garbage and h = "''None.''" and a = 0 and rest = "[]"] g d by blast
  then have e: "attempts env_garbage ''None.'' [0] =
      (Inr (''Error'', ''Could not generate unique quote.'', ''Error''),
       [Generate (MasterPrompt ''Cognitive Dissonance'' ''None.'')])"
    unfolding mp by simp
  from a b c d g e show ?thesis by blast
qed

text \<open>
  Claim C3 as the specification words it fails: this response has no \<^verbatim>\<open>PART_1:\<close> and is
  parsed all the same.
\<close>

theorem parse_missing_marker_counterexample:
  "\<not> sublist ''PART_1:'' ''x PART_2: b TITLE: c''
   \<and> parse_response (Response (Inr ''x PART_2: b TITLE: c'')) = Inr (''x'', ''b'', ''c'')"
  by code_simp

section \<open>Properties of the content generator\<close>

text \<open>
  Claim C4. A call of the generator calls the service at most five times. When all five
  attempts fail to parse it returns the triple \<open>Error\<close>,
  \<open>Could not generate unique quote.\<close>, \<open>Error\<close> after the fifth call; when attempt \<open>k\<close>
  is the first that parses it returns that quote, with \<open>k + 1\<close> calls made and none
  after.
\<close>

theorem generator_attempts_bounded:
  "length (filter is_Generate (snd (create_quote_content env))) \<le> 5
   \<and> (read_history env = Inr h \<and> (\<forall>a<5. parse_fails env h a) \<longrightarrow>
        create_quote_content env =
          (Inr (''Error'', ''Could not generate unique quote.'', ''Error''),
           ColValues # map (\<lambda>a. Generate (master_prompt env h a)) [0..<5]))
   \<and> (read_history env = Inr h \<and> k < 5 \<and> (\<forall>a<k. parse_fails env h a)
        \<and> generate_content env k (master_prompt env h k) = Inr response
        \<and> parse_response response = Inr quote \<longrightarrow>
        create_quote_content env =
          (Inr quote, ColValues # map (\<lambda>a. Generate (master_prompt env h a)) [0..<Suc k]))"
proof -
  have one: "length (filter is_Generate (snd (create_quote_content env))) \<le> 5"
  proof (cases "read_history env")
    case (Inl e)
    then show ?thesis by (simp add: create_quote_content_def)
  next
    case (Inr h')
    have "length (snd (attempts env h' [0..<MAX_ATTEMPTS])) \<le> length [0..<MAX_ATTEMPTS]"
      by (rule attempts_length)
    then show ?thesis
      by (simp add: create_quote_content_history [OF Inr] filter_Generate_attempts MAX_ATTEMPTS_def)
  qed
  have two: "create_quote_content env =
      (Inr (''Error'', ''Could not generate unique quote.'', ''Error''),
       ColValues # map (\<lambda>a. Generate (master_prompt env h a)) [0..<5])"
    if "read_history env = Inr h" "\<forall>a<5. parse_fails env h a"
    using that attempts_all_fail [of 5 env h]
    by (simp add: create_quote_content_history MAX_ATTEMPTS_def)
  have three: "create_quote_content env =
      (Inr quote, ColValues # map (\<lambda>a. Generate (master_prompt env h a)) [0..<Suc k])"
    if "read_history env = Inr h" "k < 5" "\<forall>a<k. parse_fails env h a"
      "generate_content env k (master_prompt env h k) = Inr response"
      "parse_response response = Inr quote"
    using that attempts_first_success [of k 5 env h response quote]
    by (simp add: create_quote_content_history MAX_ATTEMPTS_def)
  from one two three show ?thesis by blast
qed

text \<open>A service that never answers in the format, and one whose third answer does.\<close>

theorem generator_attempts_bounded_witness:
  "read_history env_garbage = Inr ''None.''
   \<and> list_all (parse_fails env_garbage ''None.'') [0, 1, 2, 3, 4]
   \<and> create_quote_content env_garbage =
       (Inr (''Error'', ''Could not generate unique quote.'', ''Error''),
        [ColValues,
         Generate (MasterPrompt ''Cognitive Dissonance'' ''None.''),
         Generate (MasterPrompt ''Cognitive Dissonance'' ''None.''),
         Generate (MasterPrompt ''Cognitive Dissonance'' ''None.''),
         Generate (MasterPrompt ''Cognitive Dissonance'' ''None.''),
         Generate (MasterPrompt ''Cognitive Dissonance'' ''None.'')])
   \<and> read_history env_retry = Inr ''- q1\<newline>- q2''
   \<and> list_all (parse_fails env_retry ''- q1\<newline>- q2'') [0, 1]
   \<and> create_quote_content env_retry =
       (Inr (''a'', ''b'', ''c''),
        [ColValues,
         Generate (MasterPrompt ''Confirmation Bias'' ''- q1\<newline>- q2''),
         Generate (MasterPrompt ''The Dunning-Kruger Effect'' ''- q1\<newline>- q2''),
         Generate (MasterPrompt ''Imposter Syndrome'' ''- q1\<newline>- q2'')])"
proof -
  let ?h = "''- q1\<newline>- q2''"
  have f1: "\<forall>a<5. parse_fails env_garbage ''None.'' a" by (simp add: parse_fails_garbage)
  have f2: "\<forall>a<2. parse_fails env_retry ?h a" by (simp add: parse_fails_retry)
  have g2: "generate_content env_retry 2 (master_prompt env_retry ?h 2) =
      Inr (Response (Inr ''PART_1: a PART_2: b TITLE: c''))"
    by (simp add: env_retry_def)
  have a: "create_quote_content env_garbage =
      (Inr (''Error'', ''Could not generate unique quote.'', ''Error''),
       ColValues # map (\<lambda>a. Generate (master_prompt env_garbage ''None.'' a)) [0..<5])"
    using generator_attempts_bounded [of env_garbage "''None.''", THEN conjunct2, THEN conjunct1]
      read_history_garbage f1 by blast
  have b: "create_quote_content env_retry =
      (Inr (''a'', ''b'', ''c''),
       ColValues # map (\<lambda>a. Generate (master_prompt env_retry ?h a)) [0..<Suc 2])"
    using generator_attempts_bounded [of env_retry ?h 2 "Response (Inr ''PART_1: a PART_2: b TITLE: c'')"
        "(''a'', ''b'', ''c'')", THEN conjunct2, THEN conjunct2]
      read_history_retry f2 g2 parse_abc by simp
  have c: "list_all (parse_fails env_garbage ''None.'') [0, 1, 2, 3, 4]"
    by (simp add: parse_fails_garbage)
  have d: "list_all (parse_fails env_retry ?h) [0, 1]"
    by (simp add: parse_fails_retry)
  from a have a': "create_quote_content env_garbage =
      (Inr (''Error'', ''Could not generate unique quote.'', ''Error''),
       [ColValues,
        Generate (MasterPrompt ''Cognitive Dissonance'' ''None.''),
        Generate (MasterPrompt ''Cognitive Dissonance'' ''None.''),
        Generate (MasterPrompt ''Cognitive Dissonance'' ''None.''),
        Generate (MasterPrompt ''Cognitive Dissonance'' ''None.''),
        Generate (MasterPrompt ''Cognitive Dissonance'' ''None.'')])"
    unfolding upt_5 master_prompt_garbage by simp
  from b have b': "create_quote_content env_retry =
      (Inr (''a'', ''b'', ''c''),
       [ColValues,
        Generate (MasterPrompt ''Confirmation Bias'' ?h),
        Generate (MasterPrompt ''The Dunning-Kruger Effect'' ?h),
        Generate (MasterPrompt ''Imposter Syndrome'' ?h)])"
    unfolding upt_3 by (simp add: master_prompt_retry)
  from read_history_garbage c a' read_history_retry d b' show ?thesis by blast
qed

text \<open>
  Claim C6, as the code has it. A call of the generator reads the sheet exactly once,
  before the first attempt, and every prompt of that call carries the history read
  then.
\<close>

theorem history_fetched_once:
  "count_list (snd (create_quote_content env)) ColValues = 1
   \<and> (\<exists>evs. snd (create_quote_content env) = ColValues # evs)
   \<and> (\<forall>th h. Generate (MasterPrompt th h) \<in> set (snd (create_quote_content env))
        \<longrightarrow> read_history env = Inr h)"
proof (cases "read_history env")
  case (Inl e)
  then show ?thesis by (simp add: create_quote_content_def)
next
  case (Inr h')
  let ?evs = "snd (attempts env h' [0..<MAX_ATTEMPTS])"
  have c: "snd (create_quote_content env) = ColValues # ?evs"
    by (simp add: create_quote_content_history [OF Inr])
  have "count_list ?evs ColValues = 0"
    by (simp add: attempts_no_ColValues)
  then have one: "count_list (snd (create_quote_content env)) ColValues = 1"
    by (simp add: c)
  have three: "read_history env = Inr h"
    if "Generate (MasterPrompt th h) \<in> set (snd (create_quote_content env))" for th h
  proof -
    from that have "Generate (MasterPrompt th h) \<in> set ?evs" by (simp add: c)
    then have "\<exists>th'. Generate (MasterPrompt th h) = Generate (MasterPrompt th' h')"
      by (rule attempts_Generate)
    then show ?thesis using Inr by simp
  qed
  from one c three show ?thesis by blast
qed

text \<open>The third prompt of a run with three attempts carries the history read at the start.\<close>

theorem history_fetched_once_witness:
  "Generate (MasterPrompt ''Imposter Syndrome'' ''- q1\<newline>- q2'') \<in> set (snd (create_quote_content env_retry))
   \<and> read_history env_retry = Inr ''- q1\<newline>- q2''
   \<and> count_list (snd (create_quote_content env_retry)) ColValues = 1"
proof -
  have m: "Generate (MasterPrompt ''Imposter Syndrome'' ''- q1\<newline>- q2'')
      \<in> set (snd (create_quote_content env_retry))"
    by code_simp
  from history_fetched_once [of env_retry] m show ?thesis by blast
qed

text \<open>
  Claim C6 as the specification words it fails: a run with five attempts reads the
  sheet once, not five times.
\<close>

theorem history_per_attempt_counterexample:
  "length (filter is_Generate (snd (create_quote_content env_garbage))) = 5
   \<and> count_list (snd (create_quote_content env_garbage)) ColValues = 1"
  by code_simp

text \<open>
  Claim C7. When reading the sheet raises an \<^verbatim>\<open>Exception\<close>, the history is the text
  \<^verbatim>\<open>None.\<close> and the generator goes on to the attempts: the service is called for attempt 0
  with a prompt that carries \<^verbatim>\<open>None.\<close>; the first answer that parses, at attempt \<open>k\<close>, is
  returned after \<open>k + 1\<close> calls, and five failures to parse give the sentinel triple
  after five calls. The outcome is that of the loop run with this history, every prompt
  carries \<^verbatim>\<open>None.\<close>, the generator returns a triple whenever the service answers every
  call with a text, and when the answers of the service do not depend on the history in
  the prompt, the result is the one of a run whose sheet could be read.
\<close>

theorem history_failure_placeholder:
  assumes "col_values env 0 = Inl e" and "is_Exception e"
  shows "read_history env = Inr ''None.''
       \<and> (\<exists>evs. snd (create_quote_content env) =
             ColValues # Generate (master_prompt env ''None.'' 0) # evs)
       \<and> (\<forall>k response quote.
             k < 5 \<and> (\<forall>a<k. parse_fails env ''None.'' a)
             \<and> generate_content env k (master_prompt env ''None.'' k) = Inr response
             \<and> parse_response response = Inr quote
           \<longrightarrow> create_quote_content env =
                 (Inr quote,
                  ColValues # map (\<lambda>a. Generate (master_prompt env ''None.'' a)) [0..<Suc k]))
       \<and> ((\<forall>a<5. parse_fails env ''None.'' a)
           \<longrightarrow> create_quote_content env =
                 (Inr (''Error'', ''Could not generate unique quote.'', ''Error''),
                  ColValues # map (\<lambda>a. Generate (master_prompt env ''None.'' a)) [0..<5]))
       \<and> create_quote_content env =
           (fst (attempts env ''None.'' [0..<MAX_ATTEMPTS]),
            ColValues # snd (attempts env ''None.'' [0..<MAX_ATTEMPTS]))
       \<and> (\<forall>th h. Generate (MasterPrompt th h) \<in> set (snd (create_quote_content env))
             \<longrightarrow> h = ''None.'')
       \<and> ((\<forall>n p. \<exists>t. generate_content env n p = Inr (Response (Inr t)))
             \<longrightarrow> (\<exists>q. fst (create_quote_content env) = Inr q))
       \<and> (\<forall>env' h'. random_choice env' = random_choice env
               \<and> generate_content env' = generate_content env
               \<and> read_history env' = Inr h'
               \<and> (\<forall>n th h1 h2. generate_content env n (MasterPrompt th h1) =
                     generate_content env n (MasterPrompt th h2))
             \<longrightarrow> fst (create_quote_content env') = fst (create_quote_content env))"
proof -
  have r: "read_history env = Inr ''None.''"
    using assms by (simp add: read_history_def)
  note c = create_quote_content_history [OF r]
  have first: "\<exists>evs. snd (create_quote_content env) =
      ColValues # Generate (master_prompt env ''None.'' 0) # evs"
  proof -
    have "[0..<MAX_ATTEMPTS] = 0 # [Suc 0..<MAX_ATTEMPTS]"
      by (rule upt_conv_Cons) (simp add: MAX_ATTEMPTS_def)
    then obtain evs where "snd (attempts env ''None.'' [0..<MAX_ATTEMPTS]) =
        Generate (master_prompt env ''None.'' 0) # evs"
      using attempts_first_call [of env "''None.''" 0 "[Suc 0..<MAX_ATTEMPTS]"] by auto
    then show ?thesis by (simp add: c)
  qed
  have success: "create_quote_content env =
      (Inr quote, ColValues # map (\<lambda>a. Generate (master_prompt env ''None.'' a)) [0..<Suc k])"
    if "k < 5" "\<forall>a<k. parse_fails env ''None.'' a"
      "generate_content env k (master_prompt env ''None.'' k) = Inr response"
      "parse_response response = Inr quote" for k response quote
    using attempts_first_success [OF that] by (simp add: c MAX_ATTEMPTS_def)
  have exhausted: "create_quote_content env =
      (Inr (''Error'', ''Could not generate unique quote.'', ''Error''),
       ColValues # map (\<lambda>a. Generate (master_prompt env ''None.'' a)) [0..<5])"
    if "\<forall>a<5. parse_fails env ''None.'' a"
    using attempts_all_fail [OF that] by (simp add: c MAX_ATTEMPTS_def)
  have carried: "h = ''None.''"
    if "Generate (MasterPrompt th h) \<in> set (snd (create_quote_content env))" for th h
  proof -
    from that have "Generate (MasterPrompt th h) \<in> set (snd (attempts env ''None.'' [0..<MAX_ATTEMPTS]))"
      by (simp add: c)
    then have "\<exists>th'. Generate (MasterPrompt th h) = Generate (MasterPrompt th' ''None.'')"
      by (rule attempts_Generate)
    then show ?thesis by simp
  qed
  have returns: "\<exists>q. fst (create_quote_content env) = Inr q"
    if "\<forall>n p. \<exists>t. generate_content env n p = Inr (Response (Inr t))"
    using attempts_returns [OF that, of "''None.''" "[0..<MAX_ATTEMPTS]"] by (simp add: c)
  have same: "fst (create_quote_content env') = fst (create_quote_content env)"
    if "random_choice env' = random_choice env" "generate_content env' = generate_content env"
      "read_history env' = Inr h'"
      "\<forall>n th h1 h2. generate_content env n (MasterPrompt th h1) =
         generate_content env n (MasterPrompt th h2)" for env' h'
    using attempts_same_result [OF that(1,2,4), of h' "[0..<MAX_ATTEMPTS]" "''None.''"]
    by (simp add: c create_quote_content_history [OF that(3)])
  from success have success': "\<forall>k response quote.
      k < 5 \<and> (\<forall>a<k. parse_fails env ''None.'' a)
      \<and> generate_content env k (master_prompt env ''None.'' k) = Inr response
      \<and> parse_response response = Inr quote
      \<longrightarrow> create_quote_content env =
          (Inr quote, ColValues # map (\<lambda>a. Generate (master_prompt env ''None.'' a)) [0..<Suc k])"
    by blast
  from exhausted have exhausted': "(\<forall>a<5. parse_fails env ''None.'' a)
      \<longrightarrow> create_quote_content env =
          (Inr (''Error'', ''Could not generate unique quote.'', ''Error''),
           ColValues # map (\<lambda>a. Generate (master_prompt env ''None.'' a)) [0..<5])"
    by blast
  from carried have carried': "\<forall>th h. Generate (MasterPrompt th h)
      \<in> set (snd (create_quote_content env)) \<longrightarrow> h = ''None.''"
    by blast
  from returns have returns': "(\<forall>n p. \<exists>t. generate_content env n p = Inr (Response (Inr t)))
      \<longrightarrow> (\<exists>q. fst (create_quote_content env) = Inr q)"
    by blast
  from same have same': "\<forall>env' h'. random_choice env' = random_choice env
      \<and> generate_content env' = generate_content env
      \<and> read_history env' = Inr h'
      \<and> (\<forall>n th h1 h2. generate_content env n (MasterPrompt th h1) =
            generate_content env n (MasterPrompt th h2))
      \<longrightarrow> fst (create_quote_content env') = fst (create_quote_content env)"
    by blast
  show ?thesis
    by (intro conjI r first success' exhausted' c carried' returns' same')
qed

text \<open>
  The sheet fails with \<open>APIError\<close>: a service whose third answer is well-formed, one
  that never answers in the format, and the latter with a readable sheet.
\<close>

theorem history_failure_placeholder_witness:
  "col_values env_no_sheet 0 = Inl (OtherException ''APIError'')
   \<and> is_Exception (OtherException ''APIError'')
   \<and> read_history env_no_sheet = Inr ''None.''
   \<and> list_all (parse_fails env_no_sheet ''None.'') [0, 1]
   \<and> create_quote_content env_no_sheet =
       (Inr (''a'', ''b'', ''c''),
        [ColValues,
         Generate (MasterPrompt ''Cognitive Dissonance'' ''None.''),
         Generate (MasterPrompt ''Confirmation Bias'' ''None.''),
         Generate (MasterPrompt ''The Dunning-Kruger Effect'' ''None.'')])
   \<and> col_values env_garbage 0 = Inl (OtherException ''APIError'')
   \<and> read_history env_garbage = Inr ''None.''
   \<and> create_quote_content env_garbage =
       (Inr (''Error'', ''Could not generate unique quote.'', ''Error''),
        [ColValues,
         Generate (MasterPrompt ''Cognitive Dissonance'' ''None.''),
         Generate (MasterPrompt ''Cognitive Dissonance'' ''None.''),
         Generate (MasterPrompt ''Cognitive Dissonance'' ''None.''),
         Generate (MasterPrompt ''Cognitive Dissonance'' ''None.''),
         Generate (MasterPrompt ''Cognitive Dissonance'' ''None.'')])
   \<and> read_history (env_garbage\<lparr>col_values := col_values env_retry\<rparr>) = Inr ''- q1\<newline>- q2''
   \<and> fst (create_quote_content (env_garbage\<lparr>col_values := col_values env_retry\<rparr>)) =
       fst (create_quote_content env_garbage)"
proof -
  let ?env' = "env_garbage\<lparr>col_values := col_values env_retry\<rparr>"
  have b: "is_Exception (OtherException ''APIError'')" by simp
  have a1: "col_values env_no_sheet 0 = Inl (OtherException ''APIError'')"
    by (simp add: env_no_sheet_def)
  note w1 = history_failure_placeholder [OF a1 b]
  have r1: "read_history env_no_sheet = Inr ''None.''" using w1 by (rule conjunct1)
  have f1: "\<forall>a<2. parse_fails env_no_sheet ''None.'' a" by (simp add: parse_fails_no_sheet)
  have l1: "list_all (parse_fails env_no_sheet ''None.'') [0, 1]"
    by (simp add: parse_fails_no_sheet)
  have g1: "generate_content env_no_sheet 2 (master_prompt env_no_sheet ''None.'' 2) =
      Inr (Response (Inr ''PART_1: a PART_2: b TITLE: c''))"
    by (simp add: env_no_sheet_def)
  have "create_quote_content env_no_sheet =
      (Inr (''a'', ''b'', ''c''),
       ColValues # map (\<lambda>a. Generate (master_prompt env_no_sheet ''None.'' a)) [0..<Suc 2])"
    using w1 [THEN conjunct2, THEN conjunct2, THEN conjunct1, rule_format,
        where k = 2 and response = "Response (Inr ''PART_1: a PART_2: b TITLE: c'')"
          and quote = "(''a'', ''b'', ''c'')"] f1 g1 parse_abc
    by simp
  then have c1: "create_quote_content env_no_sheet =
      (Inr (''a'', ''b'', ''c''),
       [ColValues,
        Generate (MasterPrompt ''Cognitive Dissonance'' ''None.''),
        Generate (MasterPrompt ''Confirmation Bias'' ''None.''),
        Generate (MasterPrompt ''The Dunning-Kruger Effect'' ''None.'')])"
    unfolding upt_3 by (simp add: master_prompt_no_sheet)
  have a2: "col_values env_garbage 0 = Inl (OtherException ''APIError'')"
    by (simp add: env_garbage_def)
  note w2 = history_failure_placeholder [OF a2 b]
  have r2: "read_history env_garbage = Inr ''None.''" using w2 by (rule conjunct1)
  have f2: "\<forall>a<5. parse_fails env_garbage ''None.'' a" by (simp add: parse_fails_garbage)
  have "create_quote_content env_garbage =
      (Inr (''Error'', ''Could not generate unique quote.'', ''Error''),
       ColValues # map (\<lambda>a. Generate (master_prompt env_garbage ''None.'' a)) [0..<5])"
    using w2 [THEN conjunct2, THEN conjunct2, THEN conjunct2, THEN conjunct1] f2 by blast
  then have c2: "create_quote_content env_garbage =
      (Inr (''Error'', ''Could not generate unique quote.'', ''Error''),
       [ColValues,
        Generate (MasterPrompt ''Cognitive Dissonance'' ''None.''),
        Generate (MasterPrompt ''Cognitive Dissonance'' ''None.''),
        Generate (MasterPrompt ''Cognitive Dissonance'' ''None.''),
        Generate (MasterPrompt ''Cognitive Dissonance'' ''None.''),
        Generate (MasterPrompt ''Cognitive Dissonance'' ''None.'')])"
    unfolding upt_5 master_prompt_garbage by simp
  have r': "read_history ?env' = Inr ''- q1\<newline>- q2''"
    by (simp add: read_history_def env_retry_def)
  have same: "\<forall>n th h1 h2. generate_content env_garbage n (MasterPrompt th h1) =
      generate_content env_garbage n (MasterPrompt th h2)"
    by (simp add: env_garbage_def)
  have e: "fst (create_quote_content ?env') = fst (create_quote_content env_garbage)"
    using w2 [THEN conjunct2, THEN conjunct2, THEN conjunct2, THEN conjunct2, THEN conjunct2,
        THEN conjunct2, THEN conjunct2, rule_format,
        where env' = ?env' and h' = "''- q1\<newline>- q2''"] r' same
    by simp
  from a1 b r1 l1 c1 a2 r2 c2 r' e show ?thesis by blast
qed

text \<open>
  Claim C10. When the call of the service raises at attempt \<open>k\<close>, the attempts before
  having failed to parse, the generator raises that exception, whatever its class: no
  further call is made and the sentinel triple is not returned.
\<close>

theorem service_exception_propagates:
  "read_history env = Inr h \<and> k < 5 \<and> (\<forall>a<k. parse_fails env h a)
     \<and> generate_content env k (master_prompt env h k) = Inl e
   \<longrightarrow> create_quote_content env =
         (Inl e, ColValues # map (\<lambda>a. Generate (master_prompt env h a)) [0..<Suc k])"
proof
  assume a: "read_history env = Inr h \<and> k < 5 \<and> (\<forall>a<k. parse_fails env h a)
     \<and> generate_content env k (master_prompt env h k) = Inl e"
  then have "attempts env h [0..<5] =
      (Inl e, map (\<lambda>a. Generate (master_prompt env h a)) [0..<Suc k])"
    by (intro attempts_service_error) simp_all
  with a show "create_quote_content env =
      (Inl e, ColValues # map (\<lambda>a. Generate (master_prompt env h a)) [0..<Suc k])"
    by (simp add: create_quote_content_history MAX_ATTEMPTS_def)
qed

text \<open>The second call of the service raises \<open>ResourceExhausted\<close>.\<close>

theorem service_exception_propagates_witness:
  "read_history env_quota = Inr []
   \<and> parse_fails env_quota [] 0
   \<and> generate_content env_quota 1 (master_prompt env_quota [] 1) = Inl (OtherException ''ResourceExhausted'')
   \<and> is_Exception (OtherException ''ResourceExhausted'')
   \<and> create_quote_content env_quota =
       (Inl (OtherException ''ResourceExhausted''),
        [ColValues, Generate (MasterPrompt ''Cognitive Dissonance'' []),
         Generate (MasterPrompt ''Cognitive Dissonance'' [])])"
proof -
  have f: "\<forall>a<1. parse_fails env_quota [] a" by (simp add: parse_fails_quota)
  have g: "generate_content env_quota 1 (master_prompt env_quota [] 1) =
      Inl (OtherException ''ResourceExhausted'')"
    by (simp add: env_quota_def)
  have "create_quote_content env_quota =
      (Inl (OtherException ''ResourceExhausted''),
       ColValues # map (\<lambda>a. Generate (master_prompt env_quota [] a)) [0..<Suc 1])"
    using service_exception_propagates [of env_quota "[]" 1 "OtherException ''ResourceExhausted''"]
      read_history_quota f g by simp
  then have c: "create_quote_content env_quota =
      (Inl (OtherException ''ResourceExhausted''),
       [ColValues, Generate (MasterPrompt ''Cognitive Dissonance'' []),
        Generate (MasterPrompt ''Cognitive Dissonance'' [])])"
    unfolding upt_2 master_prompt_quota by simp
  have p: "parse_fails env_quota [] 0" by (simp add: parse_fails_quota)
  have i: "is_Exception (OtherException ''ResourceExhausted'')" by simp
  from read_history_quota p g i c show ?thesis by blast
qed

section \<open>Properties of the tag brainstormer\<close>

text \<open>
  Claim C8. For a response with text \<open>t\<close> the tags are the pieces of \<open>t\<close> between its
  commas, each stripped, and there is at least one tag; pieces without a comma joined
  by commas give back those pieces, stripped; the text \<open>a, b ,c\<close> gives \<open>a\<close>, \<open>b\<close>, \<open>c\<close>,
  and the empty text gives one empty tag.
\<close>

theorem tags_split_and_trim:
  "(generate_content env n (TagPrompt title quote_parts) = Inr (Response (Inr t)) \<longrightarrow>
      generate_extra_tags env n title quote_parts = Inr (map strip (split_at '','' t))
      \<and> (\<exists>tag tags. generate_extra_tags env n title quote_parts = Inr (tag # tags)))
   \<and> (ps \<noteq> [] \<and> (\<forall>p \<in> set ps. CHR '','' \<notin> set p)
        \<and> generate_content env n (TagPrompt title quote_parts) = Inr (Response (Inr (join '','' ps)))
      \<longrightarrow> generate_extra_tags env n title quote_parts = Inr (map strip ps))
   \<and> (generate_content env n (TagPrompt title quote_parts) = Inr (Response (Inr ''a, b ,c''))
      \<longrightarrow> generate_extra_tags env n title quote_parts = Inr [''a'', ''b'', ''c''])
   \<and> (generate_content env n (TagPrompt title quote_parts) = Inr (Response (Inr []))
      \<longrightarrow> generate_extra_tags env n title quote_parts = Inr [[]])"
proof -
  have one: "generate_extra_tags env n title quote_parts = Inr (map strip (split_at '','' t))
      \<and> (\<exists>tag tags. generate_extra_tags env n title quote_parts = Inr (tag # tags))"
    if "generate_content env n (TagPrompt title quote_parts) = Inr (Response (Inr t))"
  proof -
    obtain x xs where "split_at '','' t = x # xs"
      using split_at_not_Nil [of "'',''" t] by (cases "split_at '','' t") auto
    then show ?thesis by (simp add: generate_extra_tags_text [OF that])
  qed
  have two: "generate_extra_tags env n title quote_parts = Inr (map strip ps)"
    if "ps \<noteq> []" "\<forall>p \<in> set ps. CHR '','' \<notin> set p"
      "generate_content env n (TagPrompt title quote_parts) = Inr (Response (Inr (join '','' ps)))"
    using that split_at_join [of ps "CHR '',''"]
    by (simp add: generate_extra_tags_text [OF that(3)])
  have abc: "map strip (split_at '','' ''a, b ,c'') = [''a'', ''b'', ''c'']" by code_simp
  have three: "generate_extra_tags env n title quote_parts = Inr [''a'', ''b'', ''c'']"
    if "generate_content env n (TagPrompt title quote_parts) = Inr (Response (Inr ''a, b ,c''))"
    using abc by (simp only: generate_extra_tags_text [OF that])
  have emp: "map strip (split_at '','' []) = [[]]" by code_simp
  have four: "generate_extra_tags env n title quote_parts = Inr [[]]"
    if "generate_content env n (TagPrompt title quote_parts) = Inr (Response (Inr []))"
    using emp by (simp only: generate_extra_tags_text [OF that])
  from one two three four show ?thesis by blast
qed

text \<open>The service answers \<open>a, b ,c\<close>.\<close>

theorem tags_split_and_trim_witness:
  "generate_content env_tags 0 (TagPrompt ''t'' ''q'') = Inr (Response (Inr ''a, b ,c''))
   \<and> join '','' [''a'', '' b '', ''c''] = ''a, b ,c''
   \<and> generate_extra_tags env_tags 0 ''t'' ''q'' = Inr [''a'', ''b'', ''c'']
   \<and> generate_extra_tags env_tags 0 ''t'' ''q'' = Inr (map strip [''a'', '' b '', ''c''])"
proof -
  have g: "generate_content env_tags 0 (TagPrompt ''t'' ''q'') = Inr (Response (Inr ''a, b ,c''))"
    by (simp add: env_tags_def)
  have j: "join '','' [''a'', '' b '', ''c''] = ''a, b ,c''" by simp
  have ne: "[''a'', '' b '', ''c''] \<noteq> []" by simp
  have cf: "\<forall>p \<in> set [''a'', '' b '', ''c'']. CHR '','' \<notin> set p" by simp
  note w = tags_split_and_trim [of env_tags 0 "''t''" "''q''" "''a, b ,c''" "[''a'', '' b '', ''c'']"]
  have a: "generate_extra_tags env_tags 0 ''t'' ''q'' = Inr [''a'', ''b'', ''c'']"
    using w [THEN conjunct2, THEN conjunct2, THEN conjunct1] g by blast
  have b: "generate_extra_tags env_tags 0 ''t'' ''q'' = Inr (map strip [''a'', '' b '', ''c''])"
    using w [THEN conjunct2, THEN conjunct1] ne cf g unfolding j by blast
  from g j a b show ?thesis by blast
qed

end
